theory Spec2Isabelle
  imports Complex_Main
begin

section \<open>Causal reasoning engine: data model\<close>

text \<open>
  Shallow embedding of the class \<open>CausalReasoning\<close> (reasoning/CausalReasoning.ts) and of
  the helpers it imports from foundation/utils.ts.

  Conventions of the embedding:
  \<^item> a JavaScript \<open>number\<close> holding a probability, a confidence or a delay is a \<open>real\<close>
    (exact arithmetic, no rounding); a \<open>number\<close> used as a counter or a step bound is a
    \<open>nat\<close> or an \<open>int\<close>;
  \<^item> an \<open>EntityId\<close> is a string;
  \<^item> a \<open>Map\<close> that is only looked up and stored into is a partial function; a \<open>Map\<close> or
    \<open>Set\<close> that is iterated is a list in insertion order without repetitions;
  \<^item> link objects live in the \<open>links\<close> map, and every in-place mutation of a link is an
    update of that map at the link's key;
  \<^item> \<open>Date.now()\<close> and \<open>Math.random()\<close> are read from an explicit \<open>World\<close>, one value per
    call, indexed by a tick counter that is passed along.
\<close>

type_synonym EntityId = string

datatype EvidenceType = Observation | Experiment | Testimony | Inference

text \<open>The payload \<open>data: any\<close> of an evidence record is never read and is left out.\<close>

record Evidence =
  e_id :: EntityId
  e_type :: EvidenceType
  e_source :: string
  reliability :: real
  e_timestamp :: int
  supportsHypothesis :: "EntityId option"
  contradictsHypothesis :: "EntityId option"

text \<open>\<open>conditions\<close> holds the ids of the required context concepts.\<close>

record CausalLink =
  l_id :: EntityId
  cause :: EntityId
  effect :: EntityId
  mechanism :: "string option"
  necessity :: real
  sufficiency :: real
  timeDelay :: real
  conditions :: "EntityId list"
  strength :: real
  evidence :: "Evidence list"

text \<open>
  A graph keeps the keys of its \<open>nodes\<close> and \<open>edges\<close> maps in insertion order; an edge key
  refers to the link object stored under that id.
\<close>

record CausalGraph =
  g_id :: EntityId
  g_nodes :: "EntityId list"
  g_edges :: "EntityId list"
  g_domain :: string
  g_confidence :: real
  g_created :: int
  g_lastUpdated :: int

record CausalReasoning =
  graphs :: "string \<rightharpoonup> CausalGraph"
  links :: "EntityId \<rightharpoonup> CausalLink"
  linksByCause :: "EntityId \<rightharpoonup> EntityId list"
  linksByEffect :: "EntityId \<rightharpoonup> EntityId list"

record World =
  rawIds :: "nat \<Rightarrow> string"
  randoms :: "nat \<Rightarrow> real"
  clock :: "nat \<Rightarrow> int"

definition empty_store :: CausalReasoning where
  "empty_store = \<lparr>graphs = Map.empty, links = Map.empty,
     linksByCause = Map.empty, linksByEffect = Map.empty\<rparr>"

subsection \<open>foundation/utils.ts\<close>

text \<open>
  \<open>generateId\<close> glues the time stamp and the random part into one fresh string; the
  world supplies that string. An empty prefix is falsy and gives the bare string.
\<close>

definition generateId :: "World \<Rightarrow> string \<Rightarrow> nat \<Rightarrow> EntityId \<times> nat" where
  "generateId w prefix t =
     (if prefix \<noteq> [] then prefix @ '':'' @ rawIds w t else rawIds w t, Suc t)"

definition now :: "World \<Rightarrow> nat \<Rightarrow> int \<times> nat" where
  "now w t = (clock w t, Suc t)"

definition random :: "World \<Rightarrow> nat \<Rightarrow> real \<times> nat" where
  "random w t = (randoms w t, Suc t)"

definition clamp01 :: "real \<Rightarrow> real" where
  "clamp01 v = max 0 (min 1 v)"

definition bayesianUpdate :: "real \<Rightarrow> real \<Rightarrow> real \<Rightarrow> real" where
  "bayesianUpdate priorBelief likelihoodIfTrue likelihoodIfFalse =
     (let numerator = likelihoodIfTrue * priorBelief;
          denominator = numerator + likelihoodIfFalse * (1 - priorBelief)
      in if denominator > 0 then numerator / denominator else priorBelief)"

subsection \<open>Sets of ids and the two indexes\<close>

definition set_add :: "'a \<Rightarrow> 'a list \<Rightarrow> 'a list" where
  "set_add x xs = (if x \<in> set xs then xs else xs @ [x])"

definition set_delete :: "'a \<Rightarrow> 'a list \<Rightarrow> 'a list" where
  "set_delete x xs = removeAll x xs"

text \<open>\<open>index.get(k)?.add(i)\<close> and \<open>index.get(k)?.delete(i)\<close>: nothing happens without a set at \<open>k\<close>.\<close>

definition index_add :: "EntityId \<Rightarrow> EntityId \<Rightarrow> (EntityId \<rightharpoonup> EntityId list) \<Rightarrow> (EntityId \<rightharpoonup> EntityId list)" where
  "index_add k i m = (case m k of None \<Rightarrow> m | Some ids \<Rightarrow> m(k \<mapsto> set_add i ids))"

definition index_delete :: "EntityId \<Rightarrow> EntityId \<Rightarrow> (EntityId \<rightharpoonup> EntityId list) \<Rightarrow> (EntityId \<rightharpoonup> EntityId list)" where
  "index_delete k i m = (case m k of None \<Rightarrow> m | Some ids \<Rightarrow> m(k \<mapsto> set_delete i ids))"

text \<open>\<open>if (!index.has(k)) index.set(k, new Set())\<close>\<close>

definition index_ensure :: "EntityId \<Rightarrow> (EntityId \<rightharpoonup> EntityId list) \<Rightarrow> (EntityId \<rightharpoonup> EntityId list)" where
  "index_ensure k m = (if m k = None then m(k \<mapsto> []) else m)"

subsection \<open>Causal link operations\<close>

definition storeLink :: "CausalLink \<Rightarrow> CausalReasoning \<Rightarrow> CausalReasoning" where
  "storeLink link s =
     s\<lparr>links := (links s)(l_id link \<mapsto> link),
       linksByCause := index_add (cause link) (l_id link) (index_ensure (cause link) (linksByCause s)),
       linksByEffect := index_add (effect link) (l_id link) (index_ensure (effect link) (linksByEffect s))\<rparr>"

text \<open>
  \<open>createLink(cause, effect, strength, necessity, sufficiency, mechanism, timeDelay)\<close>;
  the defaults 0.5, 0.5, 0.5, undefined and 0 are the caller's to pass.
\<close>

definition createLink ::
  "World \<Rightarrow> EntityId \<Rightarrow> EntityId \<Rightarrow> real \<Rightarrow> real \<Rightarrow> real \<Rightarrow> string option \<Rightarrow> real \<Rightarrow>
     CausalReasoning \<times> nat \<Rightarrow> CausalLink \<times> CausalReasoning \<times> nat" where
  "createLink w c e str nec suf mech delay st =
     (case st of (s, t) \<Rightarrow>
        (case generateId w ''causal'' t of (i, t') \<Rightarrow>
           (let link = \<lparr>l_id = i, cause = c, effect = e, mechanism = mech,
                        necessity = nec, sufficiency = suf, timeDelay = delay,
                        conditions = [], strength = str, evidence = []\<rparr>
            in (link, storeLink link s, t'))))"

definition getLink :: "CausalReasoning \<Rightarrow> EntityId \<Rightarrow> CausalLink option" where
  "getLink s i = links s i"

definition ids_at :: "(EntityId \<rightharpoonup> EntityId list) \<Rightarrow> EntityId \<Rightarrow> EntityId list" where
  "ids_at m k = (case m k of None \<Rightarrow> [] | Some ids \<Rightarrow> ids)"

definition getEffects :: "CausalReasoning \<Rightarrow> EntityId \<Rightarrow> CausalLink list" where
  "getEffects s c =
     map the (filter (\<lambda>link. link \<noteq> None) (map (links s) (ids_at (linksByCause s) c)))"

definition getCauses :: "CausalReasoning \<Rightarrow> EntityId \<Rightarrow> CausalLink list" where
  "getCauses s e =
     map the (filter (\<lambda>link. link \<noteq> None) (map (links s) (ids_at (linksByEffect s) e)))"

definition findLink :: "CausalReasoning \<Rightarrow> EntityId \<Rightarrow> EntityId \<Rightarrow> CausalLink option" where
  "findLink s c e = find (\<lambda>link. effect link = e) (getEffects s c)"

definition addEvidence :: "EntityId \<Rightarrow> Evidence \<Rightarrow> CausalReasoning \<Rightarrow> CausalReasoning" where
  "addEvidence linkId ev s =
     (case links s linkId of
        None \<Rightarrow> s
      | Some link \<Rightarrow>
          (let evs = evidence link @ [ev];
               reliableEvidence = filter (\<lambda>e. reliability e > 0.7) evs;
               evidenceStrength = real (length reliableEvidence) / real (max 5 (length evs))
           in s\<lparr>links := (links s)(linkId \<mapsto>
                  link\<lparr>evidence := evs,
                       strength := min 1 (strength link + evidenceStrength * 0.1)\<rparr>)\<rparr>))"

definition updateModel :: "EntityId \<Rightarrow> Evidence \<Rightarrow> CausalReasoning \<Rightarrow> CausalReasoning" where
  "updateModel linkId ev s =
     (case links s linkId of
        None \<Rightarrow> s
      | Some _ \<Rightarrow>
          (let s1 = addEvidence linkId ev s in
           case links s1 linkId of
             None \<Rightarrow> s1
           | Some link \<Rightarrow>
               (let prior = strength link; likelihood = reliability ev in
                if supportsHypothesis ev = Some linkId then
                  s1\<lparr>links := (links s1)(linkId \<mapsto>
                       link\<lparr>strength := bayesianUpdate prior likelihood (1 - likelihood)\<rparr>)\<rparr>
                else if contradictsHypothesis ev = Some linkId then
                  s1\<lparr>links := (links s1)(linkId \<mapsto>
                       link\<lparr>strength := bayesianUpdate prior (1 - likelihood) likelihood\<rparr>)\<rparr>
                else s1)))"

subsection \<open>Causal inference\<close>

text \<open>A result carries the id of its prediction concept only (\<open>{ id: ... } as Concept\<close>).\<close>

record CausalInferenceResult =
  prediction :: EntityId
  confidence :: real
  causalPath :: "CausalLink list"
  explanation :: string

text \<open>A mechanism that is absent or the empty string is falsy.\<close>

definition has_mechanism :: "CausalLink \<Rightarrow> bool" where
  "has_mechanism link = (case mechanism link of None \<Rightarrow> False | Some m \<Rightarrow> m \<noteq> [])"

definition mechanism_text :: "CausalLink \<Rightarrow> string" where
  "mechanism_text link = (case mechanism link of None \<Rightarrow> [] | Some m \<Rightarrow> m)"

fun join :: "string \<Rightarrow> string list \<Rightarrow> string" where
  "join sep [] = []"
| "join sep [x] = x"
| "join sep (x # y # ys) = x @ sep @ join sep (y # ys)"

definition explanation_step :: "nat \<times> CausalLink \<Rightarrow> string" where
  "explanation_step p =
     (case p of (i, link) \<Rightarrow>
        (let connector = (if i = 0 then [] else ''which '');
             mech = (if has_mechanism link then '' (via '' @ mechanism_text link @ '')'' else [])
         in connector @ ''causes '' @ effect link @ mech))"

definition generateExplanation :: "CausalLink list \<Rightarrow> string" where
  "generateExplanation path =
     (case path of
        [] \<Rightarrow> ''No causal connection found''
      | [link] \<Rightarrow>
          (if has_mechanism link
           then cause link @ '' causes '' @ effect link @ '' through '' @ mechanism_text link
           else cause link @ '' causes '' @ effect link)
      | link # _ \<Rightarrow>
          cause link @ '' '' @ join '', '' (map explanation_step (enumerate 0 path)))"

text \<open>
  The inner closure \<open>explore\<close> of \<open>predictEffect\<close>. The captured \<open>visited\<close> set and
  \<open>results\<close> array are passed in and returned; the \<open>for\<close> loop over the outgoing links is
  a \<open>fold\<close>.
\<close>

function explore ::
  "CausalReasoning \<Rightarrow> int \<Rightarrow> EntityId \<Rightarrow> CausalLink list \<Rightarrow> real \<Rightarrow> nat \<Rightarrow>
     EntityId set \<times> CausalInferenceResult list \<Rightarrow> EntityId set \<times> CausalInferenceResult list" where
  "explore s maxSteps currentId path conf depth acc =
     (if int depth \<ge> maxSteps \<or> currentId \<in> fst acc then acc
      else fold (\<lambda>link a.
             (let newPath = path @ [link];
                  newConfidence = conf * strength link
              in explore s maxSteps (effect link) newPath newConfidence (depth + 1)
                   (fst a, snd a @ [\<lparr>prediction = effect link, confidence = newConfidence,
                                      causalPath = newPath,
                                      explanation = generateExplanation newPath\<rparr>])))
             (getEffects s currentId) (insert currentId (fst acc), snd acc))"
  by pat_completeness auto
termination
  by (relation "measure (\<lambda>(s, maxSteps, currentId, path, conf, depth, acc). nat (maxSteps - int depth))") auto

declare explore.simps [simp del]

text \<open>\<open>results.sort((a, b) => b.confidence - a.confidence)\<close>: a stable sort, highest confidence first.\<close>

definition sort_by_confidence :: "CausalInferenceResult list \<Rightarrow> CausalInferenceResult list" where
  "sort_by_confidence results = sort_key (\<lambda>r. - confidence r) results"

definition predictEffect :: "CausalReasoning \<Rightarrow> EntityId \<Rightarrow> int \<Rightarrow> CausalInferenceResult list" where
  "predictEffect s c maxSteps = sort_by_confidence (snd (explore s maxSteps c [] 1 0 ({}, [])))"

text \<open>The inner closure of \<open>explainEffect\<close>: incoming links, necessity, the path grows at the front.\<close>

function explore_back ::
  "CausalReasoning \<Rightarrow> int \<Rightarrow> EntityId \<Rightarrow> CausalLink list \<Rightarrow> real \<Rightarrow> nat \<Rightarrow>
     EntityId set \<times> CausalInferenceResult list \<Rightarrow> EntityId set \<times> CausalInferenceResult list" where
  "explore_back s maxSteps currentId path conf depth acc =
     (if int depth \<ge> maxSteps \<or> currentId \<in> fst acc then acc
      else fold (\<lambda>link a.
             (let newPath = link # path;
                  newConfidence = conf * necessity link
              in explore_back s maxSteps (cause link) newPath newConfidence (depth + 1)
                   (fst a, snd a @ [\<lparr>prediction = cause link, confidence = newConfidence,
                                      causalPath = newPath,
                                      explanation = generateExplanation newPath\<rparr>])))
             (getCauses s currentId) (insert currentId (fst acc), snd acc))"
  by pat_completeness auto
termination
  by (relation "measure (\<lambda>(s, maxSteps, currentId, path, conf, depth, acc). nat (maxSteps - int depth))") auto

declare explore_back.simps [simp del]

definition explainEffect :: "CausalReasoning \<Rightarrow> EntityId \<Rightarrow> int \<Rightarrow> CausalInferenceResult list" where
  "explainEffect s e maxSteps =
     sort_by_confidence (snd (explore_back s maxSteps e [] 1 0 ({}, [])))"

text \<open>
  The inner closure of \<open>findCausalPaths\<close>: the length test comes first, then the target
  test, then the visited test; the node is unmarked after its loop.
\<close>

function explore_paths ::
  "CausalReasoning \<Rightarrow> EntityId \<Rightarrow> int \<Rightarrow> EntityId \<Rightarrow> CausalLink list \<Rightarrow>
     EntityId set \<times> CausalLink list list \<Rightarrow> EntityId set \<times> CausalLink list list" where
  "explore_paths s to maxLength currentId path acc =
     (if int (length path) \<ge> maxLength then acc
      else if currentId = to \<and> length path > 0 then (fst acc, snd acc @ [path])
      else if currentId \<in> fst acc then acc
      else (let a = fold (\<lambda>link a. explore_paths s to maxLength (effect link) (path @ [link]) a)
                      (getEffects s currentId) (insert currentId (fst acc), snd acc)
            in (fst a - {currentId}, snd a)))"
  by pat_completeness auto
termination
  by (relation "measure (\<lambda>(s, to, maxLength, currentId, path, acc). nat (maxLength - int (length path)))") auto

declare explore_paths.simps [simp del]

definition findCausalPaths :: "CausalReasoning \<Rightarrow> EntityId \<Rightarrow> EntityId \<Rightarrow> int \<Rightarrow> CausalLink list list" where
  "findCausalPaths s from to maxLength = snd (explore_paths s to maxLength from [] ({}, []))"

subsection \<open>Intervention and counterfactuals\<close>

text \<open>\<open>Map.prototype.set\<close> on an insertion-ordered map: a present key keeps its place.\<close>

fun map_set :: "'k \<Rightarrow> 'v \<Rightarrow> ('k \<times> 'v) list \<Rightarrow> ('k \<times> 'v) list" where
  "map_set k v [] = [(k, v)]"
| "map_set k v (p # ps) = (if fst p = k then (k, v) # ps else p # map_set k v ps)"

definition unlink_effect :: "CausalLink \<Rightarrow> CausalReasoning \<Rightarrow> CausalReasoning" where
  "unlink_effect link s =
     s\<lparr>linksByEffect := index_delete (effect link) (l_id link) (linksByEffect s)\<rparr>"

definition relink_effect :: "CausalLink \<Rightarrow> CausalReasoning \<Rightarrow> CausalReasoning" where
  "relink_effect link s =
     s\<lparr>linksByEffect := index_add (effect link) (l_id link) (linksByEffect s)\<rparr>"

text \<open>
  An intervention \<open>Map<EntityId, any>\<close> is the list of its entries in iteration order. The
  first loop of \<open>predictIntervention\<close> records the incoming links of each intervened node
  and deletes them from the effect index.
\<close>

fun remove_incoming ::
  "(EntityId \<times> 'v) list \<Rightarrow> CausalReasoning \<times> (EntityId \<times> CausalLink list) list \<Rightarrow>
     CausalReasoning \<times> (EntityId \<times> CausalLink list) list" where
  "remove_incoming [] st = st"
| "remove_incoming (entry # rest) st =
     (let varId = fst entry;
          causes = getCauses (fst st) varId;
          removedLinks = map_set varId causes (snd st)
      in remove_incoming rest (fold unlink_effect causes (fst st), removedLinks))"

text \<open>The second loop: \<open>predictEffect(varId)\<close> with its default of 3 steps, leaving at the first match.\<close>

fun search_interventions ::
  "CausalReasoning \<Rightarrow> (EntityId \<times> 'v) list \<Rightarrow> EntityId \<Rightarrow> CausalInferenceResult option" where
  "search_interventions s [] targetEffect = None"
| "search_interventions s (entry # rest) targetEffect =
     (let predictions = predictEffect s (fst entry) 3 in
      case find (\<lambda>p. prediction p = targetEffect) predictions of
        Some targetPrediction \<Rightarrow> Some targetPrediction
      | None \<Rightarrow> search_interventions s rest targetEffect)"

text \<open>The third loop adds every recorded link back to the effect index.\<close>

definition restore_links :: "(EntityId \<times> CausalLink list) list \<Rightarrow> CausalReasoning \<Rightarrow> CausalReasoning" where
  "restore_links removedLinks s = fold (\<lambda>entry s'. fold relink_effect (snd entry) s') removedLinks s"

definition predictIntervention ::
  "(EntityId \<times> 'v) list \<Rightarrow> EntityId \<Rightarrow> CausalReasoning \<Rightarrow> CausalInferenceResult option \<times> CausalReasoning" where
  "predictIntervention intervention targetEffect s =
     (let st = remove_incoming intervention (s, []);
          result = search_interventions (fst st) intervention targetEffect
      in (result, restore_links (snd st) (fst st)))"

definition counterfactual ::
  "(EntityId \<times> 'v) list \<Rightarrow> (EntityId \<times> 'v) list \<Rightarrow> EntityId \<Rightarrow> CausalReasoning \<Rightarrow>
     (CausalInferenceResult option \<times> CausalInferenceResult option \<times> real) \<times> CausalReasoning" where
  "counterfactual actual counterfact targetEffect s =
     (let a = predictIntervention actual targetEffect s;
          c = predictIntervention counterfact targetEffect (snd a);
          difference = (case (fst a, fst c) of
                          (Some x, Some y) \<Rightarrow> \<bar>confidence x - confidence y\<bar>
                        | _ \<Rightarrow> 0)
      in ((fst a, fst c, difference), snd c))"

text \<open>
  What the words "the first match obtained by scanning the intervention keys in iteration
  order and running plain predictEffect(key) on the unmodified store" describe.
\<close>

definition first_match_on_store :: "CausalReasoning \<Rightarrow> EntityId list \<Rightarrow> EntityId \<Rightarrow> CausalInferenceResult option" where
  "first_match_on_store s keys targetEffect =
     (case filter (\<lambda>r. r \<noteq> None)
             (map (\<lambda>k. find (\<lambda>p. prediction p = targetEffect) (predictEffect s k 3)) keys) of
        [] \<Rightarrow> None
      | r # _ \<Rightarrow> r)"

subsection \<open>Exceptional exits\<close>

text \<open>
  A call ends by returning a value or by an exception; nothing in the engine catches one.
\<close>

datatype 'a completion = Returns 'a | Throws

text \<open>
  \<open>addEdge\<close> puts the caller's own object into the store, and \<open>createLink\<close> hands its
  object out, so \<open>link.strength\<close> runs whatever accessor the object has by then. The
  predicate \<open>strength_throws\<close> says of which link objects that accessor throws. The
  closure of \<open>predictEffect\<close> reads \<open>link.strength\<close> first in the body of its loop; an
  exception there leaves every enclosing call at once.
\<close>

function explore_exc ::
  "(CausalLink \<Rightarrow> bool) \<Rightarrow> CausalReasoning \<Rightarrow> int \<Rightarrow> EntityId \<Rightarrow> CausalLink list \<Rightarrow> real \<Rightarrow> nat \<Rightarrow>
     EntityId set \<times> CausalInferenceResult list \<Rightarrow>
     (EntityId set \<times> CausalInferenceResult list) completion" where
  "explore_exc strength_throws s maxSteps currentId path conf depth acc =
     (if int depth \<ge> maxSteps \<or> currentId \<in> fst acc then Returns acc
      else fold (\<lambda>link c.
             (case c of
                Throws \<Rightarrow> Throws
              | Returns a \<Rightarrow>
                  if strength_throws link then Throws
                  else (let newPath = path @ [link];
                            newConfidence = conf * strength link
                        in explore_exc strength_throws s maxSteps (effect link) newPath
                             newConfidence (depth + 1)
                             (fst a, snd a @ [\<lparr>prediction = effect link,
                                                confidence = newConfidence,
                                                causalPath = newPath,
                                                explanation = generateExplanation newPath\<rparr>]))))
             (getEffects s currentId) (Returns (insert currentId (fst acc), snd acc)))"
  by pat_completeness auto
termination
  by (relation "measure (\<lambda>(strength_throws, s, maxSteps, currentId, path, conf, depth, acc).
        nat (maxSteps - int depth))") auto

declare explore_exc.simps [simp del]

definition predictEffect_exc ::
  "(CausalLink \<Rightarrow> bool) \<Rightarrow> CausalReasoning \<Rightarrow> EntityId \<Rightarrow> int \<Rightarrow> CausalInferenceResult list completion" where
  "predictEffect_exc strength_throws s c maxSteps =
     (case explore_exc strength_throws s maxSteps c [] 1 0 ({}, []) of
        Throws \<Rightarrow> Throws
      | Returns a \<Rightarrow> Returns (sort_by_confidence (snd a)))"

fun search_interventions_exc ::
  "(CausalLink \<Rightarrow> bool) \<Rightarrow> CausalReasoning \<Rightarrow> (EntityId \<times> 'v) list \<Rightarrow> EntityId \<Rightarrow>
     CausalInferenceResult option completion" where
  "search_interventions_exc strength_throws s [] targetEffect = Returns None"
| "search_interventions_exc strength_throws s (entry # rest) targetEffect =
     (case predictEffect_exc strength_throws s (fst entry) 3 of
        Throws \<Rightarrow> Throws
      | Returns predictions \<Rightarrow>
          (case find (\<lambda>p. prediction p = targetEffect) predictions of
             Some targetPrediction \<Rightarrow> Returns (Some targetPrediction)
           | None \<Rightarrow> search_interventions_exc strength_throws s rest targetEffect))"

text \<open>
  \<open>predictIntervention\<close> with its exits: the three loops follow one another with no
  \<open>try\<close> around the second, so an exception in the search leaves the function before the
  third loop, with the store as the first loop made it.
\<close>

definition predictIntervention_exc ::
  "(CausalLink \<Rightarrow> bool) \<Rightarrow> (EntityId \<times> 'v) list \<Rightarrow> EntityId \<Rightarrow> CausalReasoning \<Rightarrow>
     CausalInferenceResult option completion \<times> CausalReasoning" where
  "predictIntervention_exc strength_throws intervention targetEffect s =
     (let st = remove_incoming intervention (s, []) in
      case search_interventions_exc strength_throws (fst st) intervention targetEffect of
        Throws \<Rightarrow> (Throws, fst st)
      | Returns result \<Rightarrow> (Returns result, restore_links (snd st) (fst st)))"

subsection \<open>Graph management\<close>

definition createGraph :: "World \<Rightarrow> string \<Rightarrow> CausalReasoning \<times> nat \<Rightarrow> CausalGraph \<times> CausalReasoning \<times> nat" where
  "createGraph w domain st =
     (case st of (s, t) \<Rightarrow>
        (case generateId w ''graph'' t of (i, t1) \<Rightarrow>
        (case now w t1 of (c, t2) \<Rightarrow>
        (case now w t2 of (u, t3) \<Rightarrow>
           (let graph = \<lparr>g_id = i, g_nodes = [], g_edges = [], g_domain = domain,
                         g_confidence = 0.5, g_created = c, g_lastUpdated = u\<rparr>
            in (graph, s\<lparr>graphs := (graphs s)(domain \<mapsto> graph)\<rparr>, t3))))))"

definition getGraph :: "World \<Rightarrow> string \<Rightarrow> CausalReasoning \<times> nat \<Rightarrow> CausalGraph \<times> CausalReasoning \<times> nat" where
  "getGraph w domain st =
     (case graphs (fst st) domain of
        Some graph \<Rightarrow> (graph, fst st, snd st)
      | None \<Rightarrow> createGraph w domain st)"

definition addEdge :: "World \<Rightarrow> string \<Rightarrow> CausalLink \<Rightarrow> CausalReasoning \<times> nat \<Rightarrow> CausalReasoning \<times> nat" where
  "addEdge w domain link st =
     (case getGraph w domain st of (graph, s1, t1) \<Rightarrow>
        (case now w t1 of (u, t2) \<Rightarrow>
           (storeLink link
              (s1\<lparr>graphs := (graphs s1)(domain \<mapsto>
                     graph\<lparr>g_edges := set_add (l_id link) (g_edges graph), g_lastUpdated := u\<rparr>)\<rparr>),
            t2)))"

text \<open>\<open>addNode(domain, concept)\<close>; of the concept only its id is kept.\<close>

definition addNode :: "World \<Rightarrow> string \<Rightarrow> EntityId \<Rightarrow> CausalReasoning \<times> nat \<Rightarrow> CausalReasoning \<times> nat" where
  "addNode w domain conceptId st =
     (case getGraph w domain st of (graph, s1, t1) \<Rightarrow>
        (case now w t1 of (u, t2) \<Rightarrow>
           (s1\<lparr>graphs := (graphs s1)(domain \<mapsto>
                  graph\<lparr>g_nodes := set_add conceptId (g_nodes graph), g_lastUpdated := u\<rparr>)\<rparr>,
            t2)))"

definition clear :: "CausalReasoning \<Rightarrow> CausalReasoning" where
  "clear s = s\<lparr>graphs := Map.empty, links := Map.empty, linksByCause := Map.empty,
     linksByEffect := Map.empty\<rparr>"

subsection \<open>Learning and discovery\<close>

record 'v Observation =
  variables :: "(EntityId \<times> 'v) list"
  outcome :: EntityId

text \<open>\<open>counts.get(k) || 0\<close>\<close>

definition count_get :: "('k \<times> nat) list \<Rightarrow> 'k \<Rightarrow> nat" where
  "count_get m k = (case map_of m k of None \<Rightarrow> 0 | Some n \<Rightarrow> n)"

text \<open>\<open>String.prototype.split\<close> at a one-character separator.\<close>

fun split_at :: "char \<Rightarrow> string \<Rightarrow> string list" where
  "split_at c [] = [[]]"
| "split_at c (x # xs) =
     (if x = c then [] # split_at c xs
      else (case split_at c xs of [] \<Rightarrow> [[x]] | p # ps \<Rightarrow> (x # p) # ps))"

text \<open>The body of the loop over one observation's variables: \<open>(coOccurrences, varCounts)\<close>.\<close>

definition count_observation ::
  "EntityId list \<Rightarrow> (string \<times> nat) list \<times> (EntityId \<times> nat) list \<Rightarrow>
     (string \<times> nat) list \<times> (EntityId \<times> nat) list" where
  "count_observation vars acc =
     fold (\<lambda>var1 a.
        (fold (\<lambda>var2 co.
            if var1 \<noteq> var2
            then (let key = var1 @ ''|'' @ var2 in map_set key (count_get co key + 1) co)
            else co) vars (fst a),
         map_set var1 (count_get (snd a) var1 + 1) (snd a)))
       vars acc"

text \<open>
  \<open>varCounts.get(v) || 1\<close>, where \<open>v\<close> is a piece of the split key (\<open>undefined\<close> when the
  piece is missing).
\<close>

definition count_or_one :: "(EntityId \<times> nat) list \<Rightarrow> EntityId option \<Rightarrow> nat" where
  "count_or_one varCounts v =
     (case v of None \<Rightarrow> 1
      | Some k \<Rightarrow> (case map_of varCounts k of None \<Rightarrow> 1 | Some n \<Rightarrow> if n = 0 then 1 else n))"

definition piece :: "string list \<Rightarrow> nat \<Rightarrow> string option" where
  "piece parts i = (if i < length parts then Some (parts ! i) else None)"

definition computeCorrelations :: "'v Observation list \<Rightarrow> (string \<times> real) list" where
  "computeCorrelations observations =
     (let counts = fold (\<lambda>obs a. count_observation (map fst (variables obs)) a) observations ([], [])
      in fold (\<lambda>entry correlations.
            (let parts = split_at (CHR ''|'') (fst entry);
                 count1 = count_or_one (snd counts) (piece parts 0);
                 count2 = count_or_one (snd counts) (piece parts 1);
                 correlation = real (snd entry) / sqrt (real (count1 * count2))
             in map_set (fst entry) correlation correlations))
           (fst counts) [])"

text \<open>The placeholder: one draw of \<open>Math.random()\<close>, compared with 0.5.\<close>

definition checkTemporalPrecedence ::
  "World \<Rightarrow> EntityId \<Rightarrow> EntityId \<Rightarrow> 'v Observation list \<Rightarrow> nat \<Rightarrow> bool \<times> nat" where
  "checkTemporalPrecedence w var1 var2 observations t =
     (case random w t of (r, t') \<Rightarrow> (r > 0.5, t'))"

text \<open>
  One round of the loop of \<open>discoverCausality\<close> over the correlations. Every key was built
  as \<open>var1|var2\<close>, so the split always has two pieces; a key without them is skipped.
\<close>

definition discover_step ::
  "World \<Rightarrow> 'v Observation list \<Rightarrow> string \<Rightarrow> string \<times> real \<Rightarrow>
     CausalLink list \<times> CausalReasoning \<times> nat \<Rightarrow> CausalLink list \<times> CausalReasoning \<times> nat" where
  "discover_step w observations domain entry acc =
     (case acc of (discovered, s, t) \<Rightarrow>
        (let correlation = snd entry in
         if correlation > 0.7 then
           (case split_at (CHR ''|'') (fst entry) of
              var1 # var2 # _ \<Rightarrow>
                (case checkTemporalPrecedence w var1 var2 observations t of (var1CausesVar2, t1) \<Rightarrow>
                   if var1CausesVar2 then
                     (case createLink w var1 var2 correlation (correlation * 0.8) (correlation * 0.6)
                             None 0 (s, t1) of (link, s2, t2) \<Rightarrow>
                        (case addEdge w domain link (s2, t2) of (s3, t3) \<Rightarrow>
                           (discovered @ [link], s3, t3)))
                   else (discovered, s, t1))
            | _ \<Rightarrow> acc)
         else acc))"

definition discoverCausality ::
  "World \<Rightarrow> 'v Observation list \<Rightarrow> string \<Rightarrow> CausalReasoning \<times> nat \<Rightarrow>
     CausalLink list \<times> CausalReasoning \<times> nat" where
  "discoverCausality w observations domain st =
     fold (discover_step w observations domain) (computeCorrelations observations) ([], fst st, snd st)"

section \<open>Stores and inputs used in the statements\<close>

text \<open>
  A world whose \<open>n\<close>-th fresh id part is \<open>n + 1\<close> letters \<open>i\<close>, whose every random draw is
  \<open>r\<close> and whose clock shows the tick.
\<close>

definition fixed_world :: "real \<Rightarrow> World" where
  "fixed_world r = \<lparr>rawIds = (\<lambda>n. replicate (Suc n) (CHR ''i'')), randoms = (\<lambda>n. r),
     clock = (\<lambda>n. int n)\<rparr>"

text \<open>The store after one \<open>createLink(''A'', ''B'', str)\<close> on a new engine; the link's id is \<open>causal:i\<close>.\<close>

definition single_link :: "real \<Rightarrow> CausalReasoning" where
  "single_link str =
     fst (snd (createLink (fixed_world 0) ''A'' ''B'' str 0.5 0.5 None 0 (empty_store, 0)))"

text \<open>
  The store after creating, on a new engine, the three links of the chain A, B, C, D
  with the given strengths and necessities; their ids are \<open>causal:i\<close>, \<open>causal:ii\<close> and
  \<open>causal:iii\<close>.
\<close>

definition chain :: "real \<Rightarrow> real \<Rightarrow> real \<Rightarrow> real \<Rightarrow> real \<Rightarrow> real \<Rightarrow> CausalReasoning" where
  "chain st1 n1 st2 n2 st3 n3 =
     (let r1 = createLink (fixed_world 0) ''A'' ''B'' st1 n1 0.5 None 0 (empty_store, 0);
          r2 = createLink (fixed_world 0) ''B'' ''C'' st2 n2 0.5 None 0 (snd r1);
          r3 = createLink (fixed_world 0) ''C'' ''D'' st3 n3 0.5 None 0 (snd r2)
      in fst (snd r3))"

text \<open>The chain with strengths 0.9, 0.8, 0.7 and necessities 1/2, 1/4, 1/8.\<close>

definition example_chain :: CausalReasoning where
  "example_chain = chain (9/10) (1/2) (8/10) (1/4) (7/10) (1/8)"

definition plain_link :: "EntityId \<Rightarrow> EntityId \<Rightarrow> EntityId \<Rightarrow> real \<Rightarrow> real \<Rightarrow> CausalLink" where
  "plain_link i c e st n =
     \<lparr>l_id = i, cause = c, effect = e, mechanism = None, necessity = n, sufficiency = 0.5,
      timeDelay = 0, conditions = [], strength = st, evidence = []\<rparr>"

definition link_AB :: "real \<Rightarrow> real \<Rightarrow> CausalLink" where
  "link_AB st n = plain_link ''causal:i'' ''A'' ''B'' st n"

definition link_BC :: "real \<Rightarrow> real \<Rightarrow> CausalLink" where
  "link_BC st n = plain_link ''causal:ii'' ''B'' ''C'' st n"

definition link_CD :: "real \<Rightarrow> real \<Rightarrow> CausalLink" where
  "link_CD st n = plain_link ''causal:iii'' ''C'' ''D'' st n"

definition sample_evidence :: "real \<Rightarrow> EntityId option \<Rightarrow> EntityId option \<Rightarrow> Evidence" where
  "sample_evidence r supports contradicts =
     \<lparr>e_id = ''e'', e_type = Observation, e_source = ''sensor'', reliability = r,
      e_timestamp = 0, supportsHypothesis = supports, contradictsHypothesis = contradicts\<rparr>"

text \<open>Evidence of reliability 0 that declares support for the link \<open>causal:i\<close>.\<close>

definition zero_support :: Evidence where
  "zero_support = sample_evidence 0 (Some ''causal:i'') None"

text \<open>A world whose random draws are 0.9 up to tick 8 and 0.1 from tick 9 on.\<close>

definition drifting_world :: World where
  "drifting_world = \<lparr>rawIds = (\<lambda>n. replicate (Suc n) (CHR ''i'')),
     randoms = (\<lambda>n. if n < 9 then 0.9 else 0.1), clock = (\<lambda>n. int n)\<rparr>"

definition pair_observed :: "bool Observation list" where
  "pair_observed = [\<lparr>variables = [(''a'', True), (''b'', True)], outcome = ''o''\<rparr>]"

definition link_tuple :: "CausalLink \<Rightarrow> EntityId \<times> EntityId \<times> real \<times> real \<times> real" where
  "link_tuple link = (cause link, effect link, strength link, necessity link, sufficiency link)"

text \<open>
  What holds of every store an engine can be in: every stored link sits under its own id
  and that id is in the effect index at the link's effect, and an index entry has no
  repetitions (it is a \<open>Set\<close>). The engine never changes the id or the effect of a stored
  link, and never drops a single link.
\<close>

definition wf_store :: "CausalReasoning \<Rightarrow> bool" where
  "wf_store s \<longleftrightarrow>
     (\<forall>k link. links s k = Some link \<longrightarrow>
        l_id link = k \<and> k \<in> set (ids_at (linksByEffect s) (effect link))) \<and>
     (\<forall>e ids. linksByEffect s e = Some ids \<longrightarrow> distinct ids)"

text \<open>
  The stores an engine can be in: a new engine, and whatever its public methods make of
  it, in any world and at any tick. The forced values of an intervention have no effect
  on the store, so one type of values stands for \<open>any\<close> here. \<open>discoverCausality\<close> and
  \<open>counterfactual\<close> are sequences of the calls below.
\<close>

datatype js_value = JsBoolean bool | JsNumber real | JsString string

inductive reachable :: "CausalReasoning \<Rightarrow> bool" where
  new_engine: "reachable empty_store"
| after_clear: "reachable s \<Longrightarrow> reachable (clear s)"
| after_createGraph: "reachable s \<Longrightarrow> reachable (fst (snd (createGraph w domain (s, t))))"
| after_addNode: "reachable s \<Longrightarrow> reachable (fst (addNode w domain conceptId (s, t)))"
| after_addEdge: "reachable s \<Longrightarrow> reachable (fst (addEdge w domain link (s, t)))"
| after_createLink:
    "reachable s \<Longrightarrow> reachable (fst (snd (createLink w c e str nec suf mech delay (s, t))))"
| after_addEvidence: "reachable s \<Longrightarrow> reachable (addEvidence linkId ev s)"
| after_updateModel: "reachable s \<Longrightarrow> reachable (updateModel linkId ev s)"
| after_predictIntervention:
    "reachable s \<Longrightarrow> distinct (map fst intervention) \<Longrightarrow>
       reachable (snd (predictIntervention (intervention :: (EntityId \<times> js_value) list) targetEffect s))"

text \<open>
  A store with the link from A to B of \<open>createLink\<close> (id \<open>causal:i\<close>) and a link from B to
  C that the caller built and handed to \<open>addEdge\<close> (id \<open>x\<close>); \<open>trapped\<close> says that the
  \<open>strength\<close> accessor of the caller's object throws.
\<close>

definition callers_link :: CausalLink where
  "callers_link = plain_link ''x'' ''B'' ''C'' (8/10) (1/4)"

definition trapped_store :: CausalReasoning where
  "trapped_store =
     fst (addEdge (fixed_world 0) ''d'' callers_link
        (snd (createLink (fixed_world 0) ''A'' ''B'' (9/10) (1/2) 0.5 None 0 (empty_store, 0))))"

definition trapped :: "CausalLink \<Rightarrow> bool" where
  "trapped link = (l_id link = ''x'')"

text \<open>
  A store with links from X to Y (id \<open>causal:i\<close>) and from W to Z (id \<open>causal:ii\<close>), after the
  caller has set the \<open>effect\<close> of the first link object to Z.
\<close>

definition rewired_store :: CausalReasoning where
  "rewired_store =
     (let r1 = createLink (fixed_world 0) ''X'' ''Y'' (9/10) (1/2) 0.5 None 0 (empty_store, 0);
          r2 = createLink (fixed_world 0) ''W'' ''Z'' (8/10) (1/4) 0.5 None 0 (snd r1);
          s = fst (snd r2)
      in s\<lparr>links := (links s)(''causal:i'' \<mapsto> (fst r1)\<lparr>effect := ''Z''\<rparr>)\<rparr>)"

text \<open>The ids the effect index holds at a node, and the links an intervention has recorded.\<close>

definition index_set :: "CausalReasoning \<Rightarrow> EntityId \<Rightarrow> EntityId set" where
  "index_set s e = set (ids_at (linksByEffect s) e)"

definition recorded :: "(EntityId \<times> CausalLink list) list \<Rightarrow> CausalLink set" where
  "recorded removedLinks = (\<Union>entry \<in> set removedLinks. set (snd entry))"

section \<open>Evaluating the example stores\<close>

lemmas store_eval = createLink_def generateId_def storeLink_def fixed_world_def
  empty_store_def index_add_def index_ensure_def set_add_def Let_def

lemmas chain_link_defs = link_AB_def link_BC_def link_CD_def plain_link_def

lemma single_link_links:
  "links (single_link str) = [''causal:i'' \<mapsto> plain_link ''causal:i'' ''A'' ''B'' str 0.5]"
  by (simp add: single_link_def plain_link_def store_eval)

lemma chain_links:
  "links (chain a1 n1 a2 n2 a3 n3) =
     [''causal:i'' \<mapsto> link_AB a1 n1, ''causal:ii'' \<mapsto> link_BC a2 n2,
      ''causal:iii'' \<mapsto> link_CD a3 n3]"
  by (simp add: chain_def chain_link_defs store_eval)

lemma chain_linksByCause:
  "linksByCause (chain a1 n1 a2 n2 a3 n3) =
     [''A'' \<mapsto> [''causal:i''], ''B'' \<mapsto> [''causal:ii''], ''C'' \<mapsto> [''causal:iii'']]"
  by (simp add: chain_def store_eval)

lemma chain_linksByEffect:
  "linksByEffect (chain a1 n1 a2 n2 a3 n3) =
     [''B'' \<mapsto> [''causal:i''], ''C'' \<mapsto> [''causal:ii''], ''D'' \<mapsto> [''causal:iii'']]"
  by (simp add: chain_def store_eval)

lemma getEffects_chain:
  "getEffects (chain a1 n1 a2 n2 a3 n3) ''A'' = [link_AB a1 n1]"
  "getEffects (chain a1 n1 a2 n2 a3 n3) ''B'' = [link_BC a2 n2]"
  "getEffects (chain a1 n1 a2 n2 a3 n3) ''C'' = [link_CD a3 n3]"
  "getEffects (chain a1 n1 a2 n2 a3 n3) ''D'' = []"
  by (simp_all add: getEffects_def ids_at_def chain_links chain_linksByCause)

lemma getCauses_chain:
  "getCauses (chain a1 n1 a2 n2 a3 n3) ''A'' = []"
  "getCauses (chain a1 n1 a2 n2 a3 n3) ''B'' = [link_AB a1 n1]"
  "getCauses (chain a1 n1 a2 n2 a3 n3) ''C'' = [link_BC a2 n2]"
  "getCauses (chain a1 n1 a2 n2 a3 n3) ''D'' = [link_CD a3 n3]"
  by (simp_all add: getCauses_def ids_at_def chain_links chain_linksByEffect)

lemma chain_link_sel:
  "effect (link_AB a n) = ''B''" "effect (link_BC a n) = ''C''" "effect (link_CD a n) = ''D''"
  "cause (link_AB a n) = ''A''" "cause (link_BC a n) = ''B''" "cause (link_CD a n) = ''C''"
  "strength (link_AB a n) = a" "strength (link_BC a n) = a" "strength (link_CD a n) = a"
  "necessity (link_AB a n) = n" "necessity (link_BC a n) = n" "necessity (link_CD a n) = n"
  "has_mechanism (link_AB a n) = False" "has_mechanism (link_BC a n) = False"
  "has_mechanism (link_CD a n) = False"
  by (simp_all add: chain_link_defs has_mechanism_def)

lemma explanation_chain:
  "generateExplanation [link_AB a1 n1] = ''A causes B''"
  "generateExplanation [link_AB a1 n1, link_BC a2 n2] = ''A causes B, which causes C''"
  "generateExplanation [link_AB a1 n1, link_BC a2 n2, link_CD a3 n3] =
     ''A causes B, which causes C, which causes D''"
  "generateExplanation [link_CD a3 n3] = ''C causes D''"
  "generateExplanation [link_BC a2 n2, link_CD a3 n3] = ''B causes C, which causes D''"
  by (simp_all add: generateExplanation_def explanation_step_def chain_link_sel)

lemma explore_chain:
  "snd (explore (chain a1 n1 a2 n2 a3 n3) 3 ''A'' [] 1 0 ({}, [])) =
     [\<lparr>prediction = ''B'', confidence = a1, causalPath = [link_AB a1 n1],
       explanation = ''A causes B''\<rparr>,
      \<lparr>prediction = ''C'', confidence = a1 * a2, causalPath = [link_AB a1 n1, link_BC a2 n2],
       explanation = ''A causes B, which causes C''\<rparr>,
      \<lparr>prediction = ''D'', confidence = a1 * a2 * a3,
       causalPath = [link_AB a1 n1, link_BC a2 n2, link_CD a3 n3],
       explanation = ''A causes B, which causes C, which causes D''\<rparr>]"
  by (simp add: explore.simps getEffects_chain chain_link_sel explanation_chain Let_def)

lemma explore_back_chain:
  "snd (explore_back (chain a1 n1 a2 n2 a3 n3) 3 ''D'' [] 1 0 ({}, [])) =
     [\<lparr>prediction = ''C'', confidence = n3, causalPath = [link_CD a3 n3],
       explanation = ''C causes D''\<rparr>,
      \<lparr>prediction = ''B'', confidence = n3 * n2, causalPath = [link_BC a2 n2, link_CD a3 n3],
       explanation = ''B causes C, which causes D''\<rparr>,
      \<lparr>prediction = ''A'', confidence = n3 * n2 * n1,
       causalPath = [link_AB a1 n1, link_BC a2 n2, link_CD a3 n3],
       explanation = ''A causes B, which causes C, which causes D''\<rparr>]"
  by (simp add: explore_back.simps getCauses_chain chain_link_sel explanation_chain Let_def)

lemma predictEffect_chain:
  "predictEffect (chain (9/10) n1 (8/10) n2 (7/10) n3) ''A'' 3 =
     [\<lparr>prediction = ''B'', confidence = 9/10, causalPath = [link_AB (9/10) n1],
       explanation = ''A causes B''\<rparr>,
      \<lparr>prediction = ''C'', confidence = 72/100,
       causalPath = [link_AB (9/10) n1, link_BC (8/10) n2],
       explanation = ''A causes B, which causes C''\<rparr>,
      \<lparr>prediction = ''D'', confidence = 504/1000,
       causalPath = [link_AB (9/10) n1, link_BC (8/10) n2, link_CD (7/10) n3],
       explanation = ''A causes B, which causes C, which causes D''\<rparr>]"
  by (simp add: predictEffect_def sort_by_confidence_def explore_chain)

lemma correlations_pair_observed:
  "computeCorrelations pair_observed = [(''a|b'', 1), (''b|a'', 1)]"
  by (simp add: computeCorrelations_def pair_observed_def count_observation_def count_get_def
      count_or_one_def piece_def Let_def)

section \<open>Link store\<close>

lemma createLink_stores:
  "createLink w c e str nec suf mech delay (s, t) = (link, s', t') \<Longrightarrow>
     getLink s' (l_id link) = Some link \<and> strength link = str \<and> necessity link = nec \<and>
     sufficiency link = suf"
  by (auto simp: createLink_def generateId_def storeLink_def getLink_def Let_def)

text \<open>
  C2 (clamping on creation). \<open>createLink\<close> stores the three weights as they are passed:
  after \<open>createLink(A, B, 1.5)\<close> the stored strength is 1.5, and after
  \<open>createLink(A, B, -0.2)\<close> it is -0.2, where \<open>clamp01\<close> would give 1 and 0. The function
  never calls \<open>clamp01\<close>, which \<open>createIntent\<close> applies to its own weights.
\<close>

theorem createLink_stores_unclamped:
  "map_option strength (getLink (single_link 1.5) ''causal:i'') = Some 1.5 \<and>
   map_option strength (getLink (single_link (- 0.2)) ''causal:i'') = Some (- 0.2) \<and>
   clamp01 1.5 = 1 \<and> clamp01 (- 0.2) = 0"
  by (simp add: getLink_def single_link_links plain_link_def clamp01_def)

text \<open>
  C8, as amended (evidence and strength). On a stored link, \<open>addEvidence\<close> appends the
  record and sets the strength to \<open>min(1, old + 0.1 * r / max(5, n))\<close>, with \<open>n\<close> the number
  of records after the append and \<open>r\<close> the number of those with reliability above 0.7;
  the strength does not decrease when the old strength is at most 1.
\<close>

theorem addEvidence_strength_rule:
  assumes "links s linkId = Some link"
  shows "links (addEvidence linkId ev s) linkId =
           Some (link\<lparr>evidence := evidence link @ [ev],
                      strength := min 1 (strength link +
                         0.1 * (real (length (filter (\<lambda>e. reliability e > 0.7) (evidence link @ [ev])))
                                / real (max 5 (length (evidence link @ [ev])))))\<rparr>) \<and>
         (strength link \<le> 1 \<longrightarrow>
            strength link \<le> min 1 (strength link +
                         0.1 * (real (length (filter (\<lambda>e. reliability e > 0.7) (evidence link @ [ev])))
                                / real (max 5 (length (evidence link @ [ev]))))))"
proof -
  have nonneg: "0 \<le> 0.1 * (real (length (filter (\<lambda>e. reliability e > 0.7) (evidence link @ [ev])))
                                / real (max 5 (length (evidence link @ [ev]))))"
    by (intro mult_nonneg_nonneg divide_nonneg_nonneg) simp_all
  have "links (addEvidence linkId ev s) linkId =
           Some (link\<lparr>evidence := evidence link @ [ev],
                      strength := min 1 (strength link +
                         0.1 * (real (length (filter (\<lambda>e. reliability e > 0.7) (evidence link @ [ev])))
                                / real (max 5 (length (evidence link @ [ev])))))\<rparr>)"
    using assms by (simp add: addEvidence_def Let_def mult.commute)
  moreover have "strength link \<le> 1 \<longrightarrow>
            strength link \<le> min 1 (strength link +
                         0.1 * (real (length (filter (\<lambda>e. reliability e > 0.7) (evidence link @ [ev])))
                                / real (max 5 (length (evidence link @ [ev])))))"
    using nonneg by (simp add: min_def)
  ultimately show ?thesis by blast
qed

theorem addEvidence_strength_rule_witness:
  "links (single_link 0.5) ''causal:i'' = Some (plain_link ''causal:i'' ''A'' ''B'' 0.5 0.5) \<and>
   map_option strength
     (links (addEvidence ''causal:i'' (sample_evidence 0.9 None None) (single_link 0.5)) ''causal:i'')
     = Some (52 / 100)"
  using addEvidence_strength_rule [of "single_link 0.5" "''causal:i''"
          "plain_link ''causal:i'' ''A'' ''B'' 0.5 0.5" "sample_evidence 0.9 None None"]
  by (simp add: single_link_links plain_link_def sample_evidence_def)

text \<open>
  C8 as stated fails on a link whose strength is above 1, which \<open>createLink\<close> stores
  without complaint: one reliable record takes the strength from 1.5 down to 1.
\<close>

theorem addEvidence_lowers_strength_above_one:
  "strength (the (links (single_link 1.5) ''causal:i'')) = 1.5 \<and>
   strength (the (links (addEvidence ''causal:i'' (sample_evidence 0.9 None None) (single_link 1.5))
      ''causal:i'')) = 1"
  by (simp add: addEvidence_def single_link_links plain_link_def sample_evidence_def Let_def)

section \<open>Belief update\<close>

lemma links_addEvidence_Some:
  "links s linkId = Some link0 \<Longrightarrow> \<exists>link. links (addEvidence linkId ev s) linkId = Some link"
  by (simp add: addEvidence_def Let_def)

text \<open>
  C9, as amended (Bayesian update). On a stored link, \<open>updateModel\<close> is \<open>addEvidence\<close>
  followed by one change of the strength. With \<open>p\<close> the strength after the append and
  \<open>L\<close> the reliability of the evidence: evidence that supports the link sets the strength
  to \<open>L p / (L p + (1 - L) (1 - p))\<close> when that denominator is positive and leaves it at
  \<open>p\<close> otherwise; evidence that does not support but contradicts the link sets it to
  \<open>(1 - L) p / ((1 - L) p + L (1 - p))\<close> when that denominator is positive and leaves it at
  \<open>p\<close> otherwise; any other evidence changes nothing beyond the append.
\<close>

theorem updateModel_bayesian_rule:
  assumes "links s linkId = Some link0"
  shows "\<exists>link. links (addEvidence linkId ev s) linkId = Some link \<and>
           updateModel linkId ev s =
             (addEvidence linkId ev s)\<lparr>links := (links (addEvidence linkId ev s))(linkId \<mapsto>
                link\<lparr>strength :=
                  (if supportsHypothesis ev = Some linkId then
                     (if reliability ev * strength link + (1 - reliability ev) * (1 - strength link) > 0
                      then reliability ev * strength link /
                             (reliability ev * strength link + (1 - reliability ev) * (1 - strength link))
                      else strength link)
                   else if contradictsHypothesis ev = Some linkId then
                     (if (1 - reliability ev) * strength link + reliability ev * (1 - strength link) > 0
                      then (1 - reliability ev) * strength link /
                             ((1 - reliability ev) * strength link + reliability ev * (1 - strength link))
                      else strength link)
                   else strength link)\<rparr>)\<rparr> \<and>
           (supportsHypothesis ev \<noteq> Some linkId \<and> contradictsHypothesis ev \<noteq> Some linkId \<longrightarrow>
              updateModel linkId ev s = addEvidence linkId ev s)"
proof -
  obtain link where l: "links (addEvidence linkId ev s) linkId = Some link"
    using links_addEvidence_Some[OF assms] by blast
  have same: "(addEvidence linkId ev s)\<lparr>links := (links (addEvidence linkId ev s))(linkId \<mapsto> link)\<rparr>
                = addEvidence linkId ev s"
    using l by (simp add: map_upd_triv)
  show ?thesis
    apply (rule exI[of _ link])
    using assms l same
    by (simp add: updateModel_def bayesianUpdate_def Let_def)
qed

theorem updateModel_bayesian_rule_witness:
  "links (single_link 0.5) ''causal:i'' = Some (plain_link ''causal:i'' ''A'' ''B'' 0.5 0.5) \<and>
   map_option strength
     (links (updateModel ''causal:i'' (sample_evidence 0.9 (Some ''causal:i'') None) (single_link 0.5))
        ''causal:i'')
     = Some (39 / 43)"
  using updateModel_bayesian_rule [of "single_link 0.5" "''causal:i''"
          "plain_link ''causal:i'' ''A'' ''B'' 0.5 0.5" "sample_evidence 0.9 (Some ''causal:i'') None"]
  by (simp add: single_link_links plain_link_def sample_evidence_def addEvidence_def Let_def)

text \<open>
  C9 as stated fails where the denominator vanishes: with strength 1 after the append and
  supporting evidence of reliability 0 the quotient is \<open>0 / 0\<close>, and \<open>bayesianUpdate\<close>
  returns the prior 1 through its guard \<open>denominator > 0\<close>.
\<close>

theorem updateModel_keeps_prior_at_zero_denominator:
  "supportsHypothesis zero_support = Some ''causal:i'' \<and>
   reliability zero_support = 0 \<and>
   strength (the (links (addEvidence ''causal:i'' zero_support (single_link 1)) ''causal:i'')) = 1 \<and>
   strength (the (links (updateModel ''causal:i'' zero_support (single_link 1)) ''causal:i'')) = 1 \<and>
   strength (the (links (updateModel ''causal:i'' zero_support (single_link 1)) ''causal:i'')) \<noteq>
     reliability zero_support * 1 / (reliability zero_support * 1 + (1 - reliability zero_support) * (1 - 1))"
  by (simp add: updateModel_def addEvidence_def bayesianUpdate_def single_link_links plain_link_def
      zero_support_def sample_evidence_def Let_def)

section \<open>Traversal\<close>

lemma fold_invariant:
  "Q a0 \<Longrightarrow> (\<And>x a. x \<in> set xs \<Longrightarrow> Q a \<Longrightarrow> Q (f x a)) \<Longrightarrow> Q (fold f xs a0)"
  by (induction xs arbitrary: a0) auto

lemma explore_strength_product:
  "(\<forall>r \<in> set (snd acc). confidence r = prod_list (map strength (causalPath r)) \<and>
        int (length (causalPath r)) \<le> m) \<Longrightarrow>
   conf = prod_list (map strength path) \<Longrightarrow> length path = depth \<Longrightarrow>
   \<forall>r \<in> set (snd (explore s m cur path conf depth acc)).
      confidence r = prod_list (map strength (causalPath r)) \<and> int (length (causalPath r)) \<le> m"
proof (induction s m cur path conf depth acc rule: explore.induct)
  case (1 s maxSteps currentId path conf depth acc)
  let ?ok = "\<lambda>a :: EntityId set \<times> CausalInferenceResult list.
      \<forall>r \<in> set (snd a). confidence r = prod_list (map strength (causalPath r)) \<and>
        int (length (causalPath r)) \<le> maxSteps"
  show ?case
  proof (cases "int depth \<ge> maxSteps \<or> currentId \<in> fst acc")
    case True
    then show ?thesis using 1(2) by (simp add: explore.simps)
  next
    case False
    have "?ok (fold (\<lambda>link a.
             explore s maxSteps (effect link) (path @ [link]) (conf * strength link) (depth + 1)
               (fst a, snd a @ [\<lparr>prediction = effect link, confidence = conf * strength link,
                                  causalPath = path @ [link],
                                  explanation = generateExplanation (path @ [link])\<rparr>]))
             (getEffects s currentId) (insert currentId (fst acc), snd acc))"
    proof (rule fold_invariant[where Q = ?ok])
      show "?ok (insert currentId (fst acc), snd acc)"
        using 1(2) by simp
    next
      fix x and a :: "EntityId set \<times> CausalInferenceResult list"
      assume x: "x \<in> set (getEffects s currentId)" and a: "?ok a"
      show "?ok (explore s maxSteps (effect x) (path @ [x]) (conf * strength x) (depth + 1)
                   (fst a, snd a @ [\<lparr>prediction = effect x, confidence = conf * strength x,
                                      causalPath = path @ [x],
                                      explanation = generateExplanation (path @ [x])\<rparr>]))"
        apply (rule 1(1)[OF False x refl refl])
        using a False 1(3,4) by auto
    qed
    then show ?thesis using False by (subst explore.simps) (simp add: Let_def)
  qed
qed

lemma explore_back_necessity_product:
  "(\<forall>r \<in> set (snd acc). confidence r = prod_list (map necessity (causalPath r)) \<and>
        int (length (causalPath r)) \<le> m) \<Longrightarrow>
   conf = prod_list (map necessity path) \<Longrightarrow> length path = depth \<Longrightarrow>
   \<forall>r \<in> set (snd (explore_back s m cur path conf depth acc)).
      confidence r = prod_list (map necessity (causalPath r)) \<and> int (length (causalPath r)) \<le> m"
proof (induction s m cur path conf depth acc rule: explore_back.induct)
  case (1 s maxSteps currentId path conf depth acc)
  let ?ok = "\<lambda>a :: EntityId set \<times> CausalInferenceResult list.
      \<forall>r \<in> set (snd a). confidence r = prod_list (map necessity (causalPath r)) \<and>
        int (length (causalPath r)) \<le> maxSteps"
  show ?case
  proof (cases "int depth \<ge> maxSteps \<or> currentId \<in> fst acc")
    case True
    then show ?thesis using 1(2) by (simp add: explore_back.simps)
  next
    case False
    have "?ok (fold (\<lambda>link a.
             explore_back s maxSteps (cause link) (link # path) (conf * necessity link) (depth + 1)
               (fst a, snd a @ [\<lparr>prediction = cause link, confidence = conf * necessity link,
                                  causalPath = link # path,
                                  explanation = generateExplanation (link # path)\<rparr>]))
             (getCauses s currentId) (insert currentId (fst acc), snd acc))"
    proof (rule fold_invariant[where Q = ?ok])
      show "?ok (insert currentId (fst acc), snd acc)"
        using 1(2) by simp
    next
      fix x and a :: "EntityId set \<times> CausalInferenceResult list"
      assume x: "x \<in> set (getCauses s currentId)" and a: "?ok a"
      show "?ok (explore_back s maxSteps (cause x) (x # path) (conf * necessity x) (depth + 1)
                   (fst a, snd a @ [\<lparr>prediction = cause x, confidence = conf * necessity x,
                                      causalPath = x # path,
                                      explanation = generateExplanation (x # path)\<rparr>]))"
        apply (rule 1(1)[OF False x refl refl])
        using a False 1(3,4) by auto
    qed
    then show ?thesis using False by (subst explore_back.simps) (simp add: Let_def)
  qed
qed

text \<open>
  C4 (forward prediction). Every result of \<open>predictEffect\<close> carries the product of the
  strengths along its path, and its path has at most \<open>maxSteps\<close> links. On the chain A, B,
  C, D with strengths 0.9, 0.8, 0.7 (any necessities), \<open>predictEffect(A, 3)\<close> returns exactly
  three results, for B, C and D; the one for D has confidence 0.504 and the full chain
  as its path, and there is no result beyond it.
\<close>

theorem predictEffect_strength_product:
  "(\<forall>r \<in> set (predictEffect s c maxSteps).
      confidence r = prod_list (map strength (causalPath r)) \<and>
      int (length (causalPath r)) \<le> maxSteps) \<and>
   predictEffect (chain (9/10) n1 (8/10) n2 (7/10) n3) ''A'' 3 =
     [\<lparr>prediction = ''B'', confidence = 9/10, causalPath = [link_AB (9/10) n1],
       explanation = ''A causes B''\<rparr>,
      \<lparr>prediction = ''C'', confidence = 72/100,
       causalPath = [link_AB (9/10) n1, link_BC (8/10) n2],
       explanation = ''A causes B, which causes C''\<rparr>,
      \<lparr>prediction = ''D'', confidence = 504/1000,
       causalPath = [link_AB (9/10) n1, link_BC (8/10) n2, link_CD (7/10) n3],
       explanation = ''A causes B, which causes C, which causes D''\<rparr>]"
proof -
  have "\<forall>r \<in> set (snd (explore s maxSteps c [] 1 0 ({}, []))).
      confidence r = prod_list (map strength (causalPath r)) \<and>
      int (length (causalPath r)) \<le> maxSteps"
    by (rule explore_strength_product) simp_all
  then have "\<forall>r \<in> set (predictEffect s c maxSteps).
      confidence r = prod_list (map strength (causalPath r)) \<and>
      int (length (causalPath r)) \<le> maxSteps"
    by (simp add: predictEffect_def sort_by_confidence_def)
  then show ?thesis
    by (intro conjI) (assumption, rule predictEffect_chain)
qed

theorem predictEffect_strength_product_witness:
  "\<lparr>prediction = ''D'', confidence = 504/1000,
     causalPath = [link_AB (9/10) 1, link_BC (8/10) 1, link_CD (7/10) 1],
     explanation = ''A causes B, which causes C, which causes D''\<rparr>
     \<in> set (predictEffect (chain (9/10) 1 (8/10) 1 (7/10) 1) ''A'' 3) \<and>
   (504/1000 :: real) =
     prod_list (map strength [link_AB (9/10) 1, link_BC (8/10) 1, link_CD (7/10) 1]) \<and>
   int (length [link_AB (9/10) 1, link_BC (8/10) 1, link_CD (7/10) 1]) \<le> 3"
  using predictEffect_strength_product [of "chain (9/10) 1 (8/10) 1 (7/10) 1" "''A''" 3 1 1 1]
  by (simp add: chain_link_sel)

text \<open>
  C5 (backward explanation). Every result of \<open>explainEffect\<close> carries the product of the
  necessities along its path, and its path has at most \<open>maxSteps\<close> links. On the chain A,
  B, C, D with any strengths and necessities \<open>n1\<close>, \<open>n2\<close>, \<open>n3\<close>, \<open>explainEffect(D, 3)\<close>
  includes the result for A with confidence \<open>n1 * n2 * n3\<close>.
\<close>

theorem explainEffect_necessity_product:
  "(\<forall>r \<in> set (explainEffect s e maxSteps).
      confidence r = prod_list (map necessity (causalPath r)) \<and>
      int (length (causalPath r)) \<le> maxSteps) \<and>
   \<lparr>prediction = ''A'', confidence = n1 * n2 * n3,
     causalPath = [link_AB a1 n1, link_BC a2 n2, link_CD a3 n3],
     explanation = ''A causes B, which causes C, which causes D''\<rparr>
     \<in> set (explainEffect (chain a1 n1 a2 n2 a3 n3) ''D'' 3)"
proof -
  have "\<forall>r \<in> set (snd (explore_back s maxSteps e [] 1 0 ({}, []))).
      confidence r = prod_list (map necessity (causalPath r)) \<and>
      int (length (causalPath r)) \<le> maxSteps"
    by (rule explore_back_necessity_product) simp_all
  moreover have "n3 * n2 * n1 = n1 * n2 * n3"
    by (simp add: mult.commute mult.left_commute)
  ultimately show ?thesis
    by (simp add: explainEffect_def sort_by_confidence_def explore_back_chain)
qed

theorem explainEffect_necessity_product_witness:
  "\<lparr>prediction = ''A'', confidence = 1/64,
     causalPath = [link_AB (9/10) (1/2), link_BC (8/10) (1/4), link_CD (7/10) (1/8)],
     explanation = ''A causes B, which causes C, which causes D''\<rparr>
     \<in> set (explainEffect (chain (9/10) (1/2) (8/10) (1/4) (7/10) (1/8)) ''D'' 3) \<and>
   (1/64 :: real) =
     prod_list (map necessity [link_AB (9/10) (1/2), link_BC (8/10) (1/4), link_CD (7/10) (1/8)]) \<and>
   (1/64 :: real) \<noteq>
     prod_list (map strength [link_AB (9/10) (1/2), link_BC (8/10) (1/4), link_CD (7/10) (1/8)])"
  using explainEffect_necessity_product
          [of "chain (9/10) (1/2) (8/10) (1/4) (7/10) (1/8)" "''D''" 3 "1/2" "1/4" "1/8" "9/10" "8/10" "7/10"]
  by (simp add: chain_link_sel)

text \<open>
  C3 (path enumeration). On the chain A, B, C, D, \<open>findCausalPaths(A, D, 2)\<close> returns no
  path; \<open>findCausalPaths(A, D, 3)\<close> returns no path either, because the closure leaves at
  \<open>path.length >= maxLength\<close> before it compares the node with the target; the path of three
  links is returned for \<open>maxLength = 4\<close>.
\<close>

theorem findCausalPaths_chain_misses_path_of_maxLength:
  "findCausalPaths (chain a1 n1 a2 n2 a3 n3) ''A'' ''D'' 2 = [] \<and>
   findCausalPaths (chain a1 n1 a2 n2 a3 n3) ''A'' ''D'' 3 = [] \<and>
   findCausalPaths (chain a1 n1 a2 n2 a3 n3) ''A'' ''D'' 4 =
     [[link_AB a1 n1, link_BC a2 n2, link_CD a3 n3]]"
  by (simp add: findCausalPaths_def explore_paths.simps getEffects_chain chain_link_sel)

subsection \<open>What the forward search reads\<close>

lemma getEffects_cong:
  "links s' = links s \<Longrightarrow> linksByCause s' = linksByCause s \<Longrightarrow> getEffects s' c = getEffects s c"
  by (simp add: getEffects_def)

lemma explore_cong:
  "links s' = links s \<Longrightarrow> linksByCause s' = linksByCause s \<Longrightarrow>
     explore s' m cur path conf depth acc = explore s m cur path conf depth acc"
proof (induction s m cur path conf depth acc rule: explore.induct)
  case (1 s maxSteps currentId path conf depth acc)
  note eqs = 1(2,3)
  show ?case
  proof (cases "int depth \<ge> maxSteps \<or> currentId \<in> fst acc")
    case True
    then show ?thesis by (simp add: explore.simps)
  next
    case False
    note step = 1(1)[OF False _ refl refl eqs]
    show ?thesis
      apply (subst explore.simps)
      apply (subst (2) explore.simps)
      using False apply (simp only: if_False getEffects_cong[OF eqs] Let_def)
      apply (rule fold_cong)
         apply (rule refl)
        apply (rule refl)
      apply (rule ext)
      apply (simp only: step)
      done
  qed
qed

lemma predictEffect_cong:
  "links s' = links s \<Longrightarrow> linksByCause s' = linksByCause s \<Longrightarrow>
     predictEffect s' c m = predictEffect s c m"
  by (simp add: predictEffect_def explore_cong[of s' s])

lemma search_interventions_cong:
  "links s' = links s \<Longrightarrow> linksByCause s' = linksByCause s \<Longrightarrow>
     search_interventions s' iv t = search_interventions s iv t"
  by (induction iv) (simp_all add: predictEffect_cong[of s' s] Let_def split: option.split)

lemma search_interventions_first_match:
  "search_interventions s iv t = first_match_on_store s (map fst iv) t"
  by (induction iv) (auto simp: first_match_on_store_def Let_def split: option.split)

section \<open>Discovery\<close>

lemmas discover_eval = discoverCausality_def discover_step_def checkTemporalPrecedence_def
  random_def addEdge_def getGraph_def createGraph_def now_def link_tuple_def

text \<open>
  C6 (determinism of discovery). \<open>checkTemporalPrecedence\<close> ignores its arguments and
  compares one draw of \<open>Math.random()\<close> with 0.5, so the output of \<open>discoverCausality\<close>
  follows the draws: two calls in a row on one engine with the same one-record batch
  (variables a and b) return two links when the draws are 0.9 and none when they are 0.1.
\<close>

theorem discoverCausality_follows_random_draws:
  "map link_tuple
     (fst (discoverCausality drifting_world pair_observed ''d'' (empty_store, 0))) =
     [(''a'', ''b'', 1, 0.8, 0.6), (''b'', ''a'', 1, 0.8, 0.6)] \<and>
   map link_tuple
     (fst (discoverCausality drifting_world pair_observed ''d''
        (snd (discoverCausality drifting_world pair_observed ''d'' (empty_store, 0))))) = []"
proof -
  have first: "snd (snd (discoverCausality drifting_world pair_observed ''d'' (empty_store, 0))) = 9"
    by (simp add: discover_eval correlations_pair_observed drifting_world_def store_eval
        eval_nat_numeral)
  have links1: "map link_tuple
     (fst (discoverCausality drifting_world pair_observed ''d'' (empty_store, 0))) =
     [(''a'', ''b'', 1, 0.8, 0.6), (''b'', ''a'', 1, 0.8, 0.6)]"
    by (simp add: discover_eval correlations_pair_observed drifting_world_def store_eval)
  have links2: "map link_tuple (fst (discoverCausality drifting_world pair_observed ''d'' (s, 9))) = []"
    for s
    by (simp add: discover_eval correlations_pair_observed drifting_world_def store_eval)
  obtain ls s t where r: "discoverCausality drifting_world pair_observed ''d'' (empty_store, 0) = (ls, s, t)"
    by (cases "discoverCausality drifting_world pair_observed ''d'' (empty_store, 0)") auto
  with first have "t = 9" by simp
  with r links1 links2[of s] show ?thesis by simp
qed

section \<open>Intervention\<close>

subsection \<open>The effect index under deletion and insertion\<close>

lemma ids_at_index_delete:
  "ids_at (index_delete k i m) e = (if e = k then removeAll i (ids_at m e) else ids_at m e)"
  by (simp add: ids_at_def index_delete_def set_delete_def split: option.split)

lemma index_delete_None:
  "(index_delete k i m e = None) = (m e = None)"
  by (simp add: index_delete_def split: option.split)

lemma set_ids_at_index_add:
  "set (ids_at (index_add k i m) e) =
     (if e = k \<and> m k \<noteq> None then insert i (set (ids_at m e)) else set (ids_at m e))"
  by (auto simp: ids_at_def index_add_def set_add_def split: option.split)

lemma distinct_ids_at_index_add:
  "distinct (ids_at m e) \<Longrightarrow> distinct (ids_at (index_add k i m) e)"
  by (auto simp: ids_at_def index_add_def set_add_def split: option.split)

lemma index_add_None:
  "(index_add k i m e = None) = (m e = None)"
  by (simp add: index_add_def split: option.split)

lemma ids_at_index_ensure:
  "ids_at (index_ensure k m) e = ids_at m e"
  by (simp add: ids_at_def index_ensure_def)

lemma index_ensure_Some:
  "index_ensure k m k \<noteq> None"
  by (simp add: index_ensure_def)

lemma fold_unlink_frame [simp]:
  "links (fold unlink_effect ls s) = links s"
  "linksByCause (fold unlink_effect ls s) = linksByCause s"
  "graphs (fold unlink_effect ls s) = graphs s"
  by (induction ls arbitrary: s) (simp_all add: unlink_effect_def)

lemma fold_relink_frame [simp]:
  "links (fold relink_effect ls s) = links s"
  "linksByCause (fold relink_effect ls s) = linksByCause s"
  "graphs (fold relink_effect ls s) = graphs s"
  by (induction ls arbitrary: s) (simp_all add: relink_effect_def)

lemma fold_unlink_None:
  "(linksByEffect (fold unlink_effect ls s) e = None) = (linksByEffect s e = None)"
  by (induction ls arbitrary: s) (simp_all add: unlink_effect_def index_delete_None)

lemma fold_relink_None:
  "(linksByEffect (fold relink_effect ls s) e = None) = (linksByEffect s e = None)"
  by (induction ls arbitrary: s) (simp_all add: relink_effect_def index_add_None)

lemma index_set_fold_unlink:
  "index_set (fold unlink_effect ls s) e =
     index_set s e - {i. \<exists>l \<in> set ls. effect l = e \<and> l_id l = i}"
proof (induction ls arbitrary: s)
  case Nil
  then show ?case by simp
next
  case (Cons l ls)
  have "index_set (unlink_effect l s) e =
      index_set s e - {i. effect l = e \<and> l_id l = i}"
    by (auto simp: index_set_def unlink_effect_def ids_at_index_delete)
  then show ?case using Cons.IH[of "unlink_effect l s"] by auto
qed

lemma index_set_fold_relink:
  "index_set (fold relink_effect ls s) e =
     index_set s e \<union> {i. \<exists>l \<in> set ls. effect l = e \<and> l_id l = i \<and> linksByEffect s e \<noteq> None}"
proof (induction ls arbitrary: s)
  case Nil
  then show ?case by simp
next
  case (Cons l ls)
  have one: "index_set (relink_effect l s) e =
      index_set s e \<union> {i. effect l = e \<and> l_id l = i \<and> linksByEffect s e \<noteq> None}"
    by (auto simp: index_set_def relink_effect_def set_ids_at_index_add)
  have none: "(linksByEffect (relink_effect l s) e = None) = (linksByEffect s e = None)"
    by (simp add: relink_effect_def index_add_None)
  show ?case using Cons.IH[of "relink_effect l s"] one none by auto
qed

lemma distinct_unlink:
  "distinct (ids_at (linksByEffect s) e) \<Longrightarrow>
     distinct (ids_at (linksByEffect (unlink_effect l s)) e)"
  by (auto simp: unlink_effect_def ids_at_index_delete distinct_removeAll)

lemma distinct_relink:
  "distinct (ids_at (linksByEffect s) e) \<Longrightarrow>
     distinct (ids_at (linksByEffect (relink_effect l s)) e)"
  by (simp add: relink_effect_def distinct_ids_at_index_add)

lemma distinct_fold_unlink:
  "distinct (ids_at (linksByEffect s) e) \<Longrightarrow>
     distinct (ids_at (linksByEffect (fold unlink_effect ls s)) e)"
  by (induction ls arbitrary: s) (simp_all add: distinct_unlink)

lemma distinct_fold_relink:
  "distinct (ids_at (linksByEffect s) e) \<Longrightarrow>
     distinct (ids_at (linksByEffect (fold relink_effect ls s)) e)"
  by (induction ls arbitrary: s) (simp_all add: distinct_relink)

subsection \<open>The three loops\<close>

lemma map_set_fresh:
  "k \<notin> fst ` set m \<Longrightarrow> map_set k v m = m @ [(k, v)]"
  by (induction m) auto

lemma recorded_map_set_fresh:
  "k \<notin> fst ` set m \<Longrightarrow> recorded (map_set k v m) = recorded m \<union> set v"
  by (auto simp: map_set_fresh recorded_def)

lemma getCauses_stored:
  "l \<in> set (getCauses s v) \<Longrightarrow> \<exists>k. links s k = Some l"
  by (auto simp: getCauses_def)

lemma restore_links_frame [simp]:
  "links (restore_links rem s) = links s"
  "linksByCause (restore_links rem s) = linksByCause s"
  "graphs (restore_links rem s) = graphs s"
  by (induction rem arbitrary: s) (simp_all add: restore_links_def)

lemma restore_links_None:
  "(linksByEffect (restore_links rem s) e = None) = (linksByEffect s e = None)"
  by (induction rem arbitrary: s) (simp_all add: restore_links_def fold_relink_None)

lemma index_set_restore_links:
  "index_set (restore_links rem s) e =
     index_set s e \<union> {i. \<exists>l \<in> recorded rem. effect l = e \<and> l_id l = i \<and> linksByEffect s e \<noteq> None}"
proof (induction rem arbitrary: s)
  case Nil
  then show ?case by (simp add: restore_links_def recorded_def)
next
  case (Cons entry rem)
  have unfold: "restore_links (entry # rem) s = restore_links rem (fold relink_effect (snd entry) s)"
    by (simp add: restore_links_def)
  have rec: "recorded (entry # rem) = set (snd entry) \<union> recorded rem"
    by (simp add: recorded_def)
  show ?case
    unfolding unfold rec Cons.IH index_set_fold_relink fold_relink_None
    by auto
qed

lemma distinct_restore_links:
  "distinct (ids_at (linksByEffect s) e) \<Longrightarrow>
     distinct (ids_at (linksByEffect (restore_links rem s)) e)"
  by (induction rem arbitrary: s) (simp_all add: restore_links_def distinct_fold_relink)

lemma remove_incoming_frame:
  "links (fst (remove_incoming iv st)) = links (fst st) \<and>
   linksByCause (fst (remove_incoming iv st)) = linksByCause (fst st) \<and>
   graphs (fst (remove_incoming iv st)) = graphs (fst st)"
  by (induction iv arbitrary: st) (simp_all add: Let_def)

lemma remove_incoming_effect_index:
  "distinct (map fst iv) \<Longrightarrow> fst ` set rem \<inter> fst ` set iv = {} \<Longrightarrow>
     (\<forall>e. (linksByEffect (fst (remove_incoming iv (s, rem))) e = None) = (linksByEffect s e = None)) \<and>
     (\<forall>e. index_set (fst (remove_incoming iv (s, rem))) e \<subseteq> index_set s e) \<and>
     recorded rem \<subseteq> recorded (snd (remove_incoming iv (s, rem))) \<and>
     (\<forall>e. \<forall>i \<in> index_set s e - index_set (fst (remove_incoming iv (s, rem))) e.
          \<exists>l \<in> recorded (snd (remove_incoming iv (s, rem))). effect l = e \<and> l_id l = i) \<and>
     (\<forall>l \<in> recorded (snd (remove_incoming iv (s, rem))).
          l \<in> recorded rem \<or> (\<exists>k. links s k = Some l)) \<and>
     ((\<forall>e. distinct (ids_at (linksByEffect s) e)) \<longrightarrow>
        (\<forall>e. distinct (ids_at (linksByEffect (fst (remove_incoming iv (s, rem)))) e)))"
proof (induction iv arbitrary: s rem)
  case Nil
  then show ?case by simp
next
  case (Cons entry rest)
  define causes where "causes = getCauses s (fst entry)"
  define s' where "s' = fold unlink_effect causes s"
  define rem' where "rem' = map_set (fst entry) causes rem"
  have step: "remove_incoming (entry # rest) (s, rem) = remove_incoming rest (s', rem')"
    by (simp add: Let_def causes_def s'_def rem'_def)
  have fresh: "fst entry \<notin> fst ` set rem"
    using Cons.prems(2) by auto
  have rec': "recorded rem' = recorded rem \<union> set causes"
    unfolding rem'_def by (rule recorded_map_set_fresh[OF fresh])
  have keys': "fst ` set rem' = insert (fst entry) (fst ` set rem)"
    unfolding rem'_def by (simp add: map_set_fresh[OF fresh])
  have d: "distinct (map fst rest)" and notin: "fst entry \<notin> fst ` set rest"
    using Cons.prems(1) by auto
  have disj: "fst ` set rem' \<inter> fst ` set rest = {}"
    using Cons.prems(2) notin keys' by auto
  note IH = Cons.IH[OF d disj, of s']
  let ?st = "remove_incoming rest (s', rem')"
  have none': "\<And>e. (linksByEffect s' e = None) = (linksByEffect s e = None)"
    unfolding s'_def by (rule fold_unlink_None)
  have idx': "\<And>e. index_set s' e = index_set s e - {i. \<exists>l \<in> set causes. effect l = e \<and> l_id l = i}"
    unfolding s'_def by (rule index_set_fold_unlink)
  have links': "links s' = links s"
    unfolding s'_def by simp
  have stored: "\<And>l. l \<in> set causes \<Longrightarrow> \<exists>k. links s k = Some l"
    unfolding causes_def by (rule getCauses_stored)
  have c1: "\<forall>e. (linksByEffect (fst ?st) e = None) = (linksByEffect s e = None)"
    using IH none' by simp
  have c2: "\<forall>e. index_set (fst ?st) e \<subseteq> index_set s e"
    using IH idx' by blast
  have c3: "recorded rem \<subseteq> recorded (snd ?st)"
    using IH rec' by blast
  have c4: "\<forall>e. \<forall>i \<in> index_set s e - index_set (fst ?st) e.
          \<exists>l \<in> recorded (snd ?st). effect l = e \<and> l_id l = i"
  proof (intro allI ballI)
    fix e i
    assume i: "i \<in> index_set s e - index_set (fst ?st) e"
    show "\<exists>l \<in> recorded (snd ?st). effect l = e \<and> l_id l = i"
    proof (cases "i \<in> index_set s' e")
      case True
      with i have "i \<in> index_set s' e - index_set (fst ?st) e" by simp
      then show ?thesis using IH by blast
    next
      case False
      with i idx'[of e] obtain l where "l \<in> set causes" "effect l = e" "l_id l = i"
        by auto
      moreover have "set causes \<subseteq> recorded (snd ?st)"
        using IH rec' by blast
      ultimately show ?thesis by blast
    qed
  qed
  have c5: "\<forall>l \<in> recorded (snd ?st). l \<in> recorded rem \<or> (\<exists>k. links s k = Some l)"
  proof
    fix l
    assume "l \<in> recorded (snd ?st)"
    then have "l \<in> recorded rem' \<or> (\<exists>k. links s' k = Some l)"
      using IH by blast
    then show "l \<in> recorded rem \<or> (\<exists>k. links s k = Some l)"
      using rec' links' stored by auto
  qed
  have c6: "(\<forall>e. distinct (ids_at (linksByEffect s) e)) \<longrightarrow>
        (\<forall>e. distinct (ids_at (linksByEffect (fst ?st)) e))"
  proof
    assume "\<forall>e. distinct (ids_at (linksByEffect s) e)"
    then have "\<forall>e. distinct (ids_at (linksByEffect s') e)"
      unfolding s'_def by (simp add: distinct_fold_unlink)
    then show "\<forall>e. distinct (ids_at (linksByEffect (fst ?st)) e)"
      using IH by blast
  qed
  show ?case
    unfolding step using c1 c2 c3 c4 c5 c6 by blast
qed

subsection \<open>Restoration\<close>

lemma wf_store_distinct:
  "wf_store s \<Longrightarrow> distinct (ids_at (linksByEffect s) e)"
  by (auto simp: wf_store_def ids_at_def split: option.split)

lemma index_set_nonempty_Some:
  "i \<in> index_set s e \<Longrightarrow> linksByEffect s e \<noteq> None"
  by (cases "linksByEffect s e") (simp_all add: index_set_def ids_at_def)

lemma predictIntervention_frame:
  "links (snd (predictIntervention iv t s)) = links s \<and>
   linksByCause (snd (predictIntervention iv t s)) = linksByCause s \<and>
   graphs (snd (predictIntervention iv t s)) = graphs s"
  using remove_incoming_frame[of iv "(s, [])"] by (simp add: predictIntervention_def Let_def)

lemma predictIntervention_index_set:
  assumes wf: "wf_store s" and d: "distinct (map fst iv)"
  shows "index_set (snd (predictIntervention iv t s)) e = index_set s e"
proof -
  let ?st = "remove_incoming iv (s, [])"
  have ri: "(\<forall>e. (linksByEffect (fst ?st) e = None) = (linksByEffect s e = None)) \<and>
     (\<forall>e. index_set (fst ?st) e \<subseteq> index_set s e) \<and>
     (\<forall>e. \<forall>i \<in> index_set s e - index_set (fst ?st) e.
          \<exists>l \<in> recorded (snd ?st). effect l = e \<and> l_id l = i) \<and>
     (\<forall>l \<in> recorded (snd ?st). \<exists>k. links s k = Some l)"
    using remove_incoming_effect_index[OF d, of "[]" s] by (simp add: recorded_def)
  have s2: "snd (predictIntervention iv t s) = restore_links (snd ?st) (fst ?st)"
    by (simp add: predictIntervention_def Let_def)
  have idx: "index_set (restore_links (snd ?st) (fst ?st)) e =
      index_set (fst ?st) e \<union>
        {i. \<exists>l \<in> recorded (snd ?st). effect l = e \<and> l_id l = i \<and> linksByEffect s e \<noteq> None}"
    using ri by (simp add: index_set_restore_links)
  show ?thesis
  proof (rule set_eqI, rule iffI)
    fix i
    assume "i \<in> index_set (snd (predictIntervention iv t s)) e"
    then consider "i \<in> index_set (fst ?st) e"
      | l where "l \<in> recorded (snd ?st)" "effect l = e" "l_id l = i"
      unfolding s2 idx by blast
    then show "i \<in> index_set s e"
    proof cases
      case 1
      then show ?thesis using ri by blast
    next
      case 2
      then obtain k where "links s k = Some l" using ri by blast
      then have "l_id l = k \<and> k \<in> index_set s (effect l)"
        using wf by (simp add: wf_store_def index_set_def)
      then show ?thesis using 2 by simp
    qed
  next
    fix i
    assume i: "i \<in> index_set s e"
    show "i \<in> index_set (snd (predictIntervention iv t s)) e"
    proof (cases "i \<in> index_set (fst ?st) e")
      case True
      then show ?thesis unfolding s2 idx by simp
    next
      case False
      with i ri obtain l where "l \<in> recorded (snd ?st)" "effect l = e" "l_id l = i"
        by blast
      moreover have "linksByEffect s e \<noteq> None"
        using i by (rule index_set_nonempty_Some)
      ultimately show ?thesis unfolding s2 idx by blast
    qed
  qed
qed

lemma predictIntervention_distinct:
  assumes wf: "wf_store s" and d: "distinct (map fst iv)"
  shows "distinct (ids_at (linksByEffect (snd (predictIntervention iv t s))) e)"
proof -
  let ?st = "remove_incoming iv (s, [])"
  have "\<forall>e. distinct (ids_at (linksByEffect (fst ?st)) e)"
    using remove_incoming_effect_index[OF d, of "[]" s] wf_store_distinct[OF wf] by simp
  then show ?thesis
    by (simp add: predictIntervention_def Let_def distinct_restore_links)
qed

lemma set_getCauses:
  "set (getCauses s v) = {l. \<exists>i \<in> index_set s v. links s i = Some l}"
  by (auto simp: getCauses_def index_set_def image_iff) force

lemma length_getCauses:
  "distinct (ids_at (linksByEffect s) v) \<Longrightarrow>
     length (getCauses s v) = card {i \<in> index_set s v. links s i \<noteq> None}"
proof -
  assume d: "distinct (ids_at (linksByEffect s) v)"
  have "length (getCauses s v) =
      length (filter (\<lambda>i. links s i \<noteq> None) (ids_at (linksByEffect s) v))"
    by (simp add: getCauses_def filter_map comp_def)
  also have "\<dots> = card ({i. links s i \<noteq> None} \<inter> set (ids_at (linksByEffect s) v))"
    using d by (rule distinct_length_filter)
  also have "{i. links s i \<noteq> None} \<inter> set (ids_at (linksByEffect s) v) =
      {i \<in> index_set s v. links s i \<noteq> None}"
    by (auto simp: index_set_def)
  finally show ?thesis .
qed

lemma wf_store_empty: "wf_store empty_store"
  by (simp add: wf_store_def empty_store_def)

lemma wf_store_storeLink:
  assumes "wf_store s"
  shows "wf_store (storeLink link s)"
proof -
  let ?m = "index_add (effect link) (l_id link) (index_ensure (effect link) (linksByEffect s))"
  have grow: "\<And>e. set (ids_at (linksByEffect s) e) \<subseteq> set (ids_at ?m e)"
    by (auto simp: set_ids_at_index_add ids_at_index_ensure)
  have new: "l_id link \<in> set (ids_at ?m (effect link))"
    by (simp add: set_ids_at_index_add index_ensure_Some)
  have dist: "\<And>e. distinct (ids_at ?m e)"
    using wf_store_distinct[OF assms]
    by (intro distinct_ids_at_index_add) (simp add: ids_at_index_ensure)
  have dist': "\<And>e ids. ?m e = Some ids \<Longrightarrow> distinct ids"
    using dist by (metis ids_at_def option.simps(5))
  show ?thesis
    unfolding wf_store_def
  proof (rule conjI; intro allI impI)
    fix k l
    assume "links (storeLink link s) k = Some l"
    then consider "k = l_id link" "l = link" | "k \<noteq> l_id link" "links s k = Some l"
      by (auto simp: storeLink_def split: if_splits)
    then show "l_id l = k \<and> k \<in> set (ids_at (linksByEffect (storeLink link s)) (effect l))"
    proof cases
      case 1
      then show ?thesis using new by (simp add: storeLink_def)
    next
      case 2
      then have "l_id l = k" and "k \<in> set (ids_at (linksByEffect s) (effect l))"
        using assms by (auto simp: wf_store_def)
      then show ?thesis using grow[of "effect l"] by (auto simp: storeLink_def)
    qed
  next
    fix e ids
    assume "linksByEffect (storeLink link s) e = Some ids"
    then show "distinct ids" using dist' by (simp add: storeLink_def)
  qed
qed

lemma wf_store_predictIntervention:
  assumes "wf_store s" and "distinct (map fst iv)"
  shows "wf_store (snd (predictIntervention iv t s))"
proof -
  let ?s2 = "snd (predictIntervention iv t s)"
  have l: "links ?s2 = links s"
    using predictIntervention_frame by blast
  have i: "\<And>e. set (ids_at (linksByEffect ?s2) e) = set (ids_at (linksByEffect s) e)"
    using predictIntervention_index_set[OF assms] by (simp add: index_set_def)
  have d: "\<And>e. distinct (ids_at (linksByEffect ?s2) e)"
    using predictIntervention_distinct[OF assms] .
  have "\<And>e ids. linksByEffect ?s2 e = Some ids \<Longrightarrow> distinct ids"
    using d by (metis ids_at_def option.simps(5))
  then show ?thesis
    using assms(1) l i unfolding wf_store_def by auto
qed

lemma wf_store_addEvidence:
  "wf_store s \<Longrightarrow> wf_store (addEvidence linkId ev s)"
  by (auto simp: wf_store_def addEvidence_def Let_def split: option.split)

lemma wf_store_updateModel:
  "wf_store s \<Longrightarrow> wf_store (updateModel linkId ev s)"
proof -
  assume wf: "wf_store s"
  have wf1: "wf_store (addEvidence linkId ev s)"
    using wf by (rule wf_store_addEvidence)
  have upd: "\<And>link x. links (addEvidence linkId ev s) linkId = Some link \<Longrightarrow>
      wf_store ((addEvidence linkId ev s)\<lparr>links := (links (addEvidence linkId ev s))(linkId \<mapsto>
                  link\<lparr>strength := x\<rparr>)\<rparr>)"
    using wf1 by (auto simp: wf_store_def)
  show ?thesis
    using wf wf1 upd by (simp add: updateModel_def Let_def split: option.split)
qed

lemma wf_store_chain: "wf_store (chain a1 n1 a2 n2 a3 n3)"
  by (simp add: chain_def createLink_def generateId_def Let_def wf_store_storeLink wf_store_empty)

lemma wf_store_graphs_update [simp]:
  "wf_store (s\<lparr>graphs := g\<rparr>) = wf_store s"
  by (simp add: wf_store_def)

lemma wf_store_getGraph:
  "wf_store (fst st) \<Longrightarrow> wf_store (fst (snd (getGraph w domain st)))"
  by (cases st) (simp add: getGraph_def createGraph_def generateId_def now_def Let_def split: option.split)

lemma wf_store_createGraph:
  "wf_store s \<Longrightarrow> wf_store (fst (snd (createGraph w domain (s, t))))"
  by (simp add: createGraph_def generateId_def now_def Let_def)

lemma wf_store_addNode:
  "wf_store s \<Longrightarrow> wf_store (fst (addNode w domain conceptId (s, t)))"
  using wf_store_getGraph[of "(s, t)" w domain]
  by (auto simp: addNode_def now_def split: prod.split)

lemma wf_store_addEdge:
  "wf_store s \<Longrightarrow> wf_store (fst (addEdge w domain link (s, t)))"
  using wf_store_getGraph[of "(s, t)" w domain]
  by (auto simp: addEdge_def now_def intro!: wf_store_storeLink split: prod.split)

lemma wf_store_createLink:
  "wf_store s \<Longrightarrow> wf_store (fst (snd (createLink w c e str nec suf mech delay (s, t))))"
  by (simp add: createLink_def generateId_def Let_def wf_store_storeLink)

lemma wf_store_clear: "wf_store (clear s)"
  by (simp add: wf_store_def clear_def)

lemma reachable_wf_store:
  "reachable s \<Longrightarrow> wf_store s"
proof (induction rule: reachable.induct)
  case new_engine
  show ?case by (rule wf_store_empty)
next
  case (after_clear s)
  show ?case by (rule wf_store_clear)
next
  case (after_createGraph s w domain t)
  then show ?case by (simp add: wf_store_createGraph)
next
  case (after_addNode s w domain conceptId t)
  then show ?case by (simp add: wf_store_addNode)
next
  case (after_addEdge s w domain link t)
  then show ?case by (simp add: wf_store_addEdge)
next
  case (after_createLink s w c e str nec suf mech delay t)
  then show ?case by (simp add: wf_store_createLink)
next
  case (after_addEvidence s linkId ev)
  then show ?case by (simp add: wf_store_addEvidence)
next
  case (after_updateModel s linkId ev)
  then show ?case by (simp add: wf_store_updateModel)
next
  case (after_predictIntervention s intervention targetEffect)
  then show ?case by (simp add: wf_store_predictIntervention)
qed

lemma reachable_chain: "reachable (chain a1 n1 a2 n2 a3 n3)"
proof -
  let ?r1 = "createLink (fixed_world 0) ''A'' ''B'' a1 n1 0.5 None 0 (empty_store, 0)"
  let ?r2 = "createLink (fixed_world 0) ''B'' ''C'' a2 n2 0.5 None 0 (snd ?r1)"
  let ?r3 = "createLink (fixed_world 0) ''C'' ''D'' a3 n3 0.5 None 0 (snd ?r2)"
  have 1: "reachable (fst (snd ?r1))"
    by (rule after_createLink) (rule new_engine)
  have "reachable (fst (snd (createLink (fixed_world 0) ''B'' ''C'' a2 n2 0.5 None 0
      (fst (snd ?r1), snd (snd ?r1)))))"
    using 1 by (rule after_createLink)
  then have 2: "reachable (fst (snd ?r2))" by simp
  have "reachable (fst (snd (createLink (fixed_world 0) ''C'' ''D'' a3 n3 0.5 None 0
      (fst (snd ?r2), snd (snd ?r2)))))"
    using 2 by (rule after_createLink)
  then have "reachable (fst (snd ?r3))" by simp
  then show ?thesis by (simp add: chain_def Let_def)
qed

lemma reachable_discover_step:
  assumes "reachable (fst (snd acc))"
  shows "reachable (fst (snd (discover_step w obs domain entry acc)))"
proof -
  obtain discovered s t where acc: "acc = (discovered, s, t)" by (cases acc) auto
  have r: "reachable s" using assms acc by simp
  show ?thesis
  proof (cases "snd entry > 0.7")
    case False
    then show ?thesis using assms by (simp add: discover_step_def acc)
  next
    case strong: True
    show ?thesis
    proof (cases "split_at (CHR ''|'') (fst entry)")
      case Nil
      then show ?thesis using r strong by (simp add: discover_step_def acc)
    next
      case (Cons var1 tail)
      show ?thesis
      proof (cases tail)
        case Nil
        then show ?thesis using r strong Cons by (simp add: discover_step_def acc)
      next
        case (Cons var2 rest)
        note parts = \<open>split_at (CHR ''|'') (fst entry) = var1 # tail\<close> Cons
        show ?thesis
        proof (cases "randoms w t > 0.5")
          case False
          then show ?thesis
            using r strong parts
            by (simp add: discover_step_def acc checkTemporalPrecedence_def random_def)
        next
          case True
          obtain link s2 t2 where cl:
            "createLink w var1 var2 (snd entry) (snd entry * 0.8) (snd entry * 0.6) None 0 (s, Suc t)
               = (link, s2, t2)"
            by (metis prod_cases3)
          obtain s3 t3 where ae: "addEdge w domain link (s2, t2) = (s3, t3)"
            by (metis surj_pair)
          have "reachable s2"
            using after_createLink[OF r, of w var1 var2 "snd entry" "snd entry * 0.8"
                "snd entry * 0.6" None 0 "Suc t"] cl by simp
          then have "reachable s3"
            using after_addEdge[of s2 w domain link t2] ae by simp
          then show ?thesis
            using strong parts True cl ae
            by (simp add: discover_step_def acc checkTemporalPrecedence_def random_def)
        qed
      qed
    qed
  qed
qed

lemma reachable_discoverCausality:
  "reachable s \<Longrightarrow> reachable (fst (snd (discoverCausality w obs domain (s, t))))"
proof -
  assume r: "reachable s"
  have "reachable (fst (snd (fold (discover_step w obs domain) xs acc)))"
    if "reachable (fst (snd acc))" for xs acc
    using that by (induction xs arbitrary: acc) (simp_all add: reachable_discover_step)
  then show ?thesis using r by (simp add: discoverCausality_def)
qed

lemma reachable_counterfactual:
  "reachable s \<Longrightarrow> distinct (map fst actual) \<Longrightarrow> distinct (map fst counterfact) \<Longrightarrow>
     reachable (snd (counterfactual (actual :: (EntityId \<times> js_value) list) counterfact t s))"
  by (simp add: counterfactual_def Let_def after_predictIntervention)

text \<open>
  The normal return. On every store an engine can be in (\<open>reachable\<close>) and for every
  intervention map (a list of entries with distinct keys), a call of \<open>predictIntervention\<close>
  that returns leaves a store in which \<open>getCauses\<close> of every node, intervened or not, has
  the members and the length it had before the call.
\<close>

lemma predictIntervention_restores_getCauses:
  assumes "reachable s" and "distinct (map fst intervention)"
  shows "set (getCauses (snd (predictIntervention intervention targetEffect s)) v) =
           set (getCauses s v) \<and>
         length (getCauses (snd (predictIntervention intervention targetEffect s)) v) =
           length (getCauses s v)"
proof -
  let ?s2 = "snd (predictIntervention intervention targetEffect s)"
  have wf: "wf_store s"
    using assms(1) by (rule reachable_wf_store)
  have l: "links ?s2 = links s"
    using predictIntervention_frame by blast
  have i: "index_set ?s2 v = index_set s v"
    using wf assms(2) by (rule predictIntervention_index_set)
  have "length (getCauses ?s2 v) = card {i \<in> index_set ?s2 v. links ?s2 i \<noteq> None}"
    using predictIntervention_distinct[OF wf assms(2)] by (rule length_getCauses)
  moreover have "length (getCauses s v) = card {i \<in> index_set s v. links s i \<noteq> None}"
    using wf_store_distinct[OF wf] by (rule length_getCauses)
  ultimately show ?thesis
    by (simp add: set_getCauses l i)
qed

text \<open>
  While the search runs, the incoming link of an intervened node is out of the index.
\<close>

lemma remove_incoming_chain_severs:
  "getCauses (fst (remove_incoming [(''B'', forced)] (chain a1 n1 a2 n2 a3 n3, []))) ''B'' = []"
  by (simp add: Let_def getCauses_chain unlink_effect_def chain_link_sel chain_link_defs
      getCauses_def chain_links chain_linksByEffect ids_at_def index_delete_def set_delete_def)

lemma reachable_example_chain: "reachable example_chain"
  unfolding example_chain_def by (rule reachable_chain)

lemma getCauses_example_chain_B: "getCauses example_chain ''B'' = [link_AB (9/10) (1/2)]"
  unfolding example_chain_def by (rule getCauses_chain)

lemma predictIntervention_restores_getCauses_on_chain:
  "reachable example_chain \<and> distinct (map fst [(''B'', True)]) \<and>
   set (getCauses (snd (predictIntervention [(''B'', True)] ''D'' example_chain)) ''B'')
     = {link_AB (9/10) (1/2)} \<and>
   length (getCauses (snd (predictIntervention [(''B'', True)] ''D'' example_chain)) ''B'') = 1"
  using predictIntervention_restores_getCauses
    [where s = example_chain and intervention = "[(''B'', True)]" and targetEffect = "''D''"
       and v = "''B''"]
  by (simp add: reachable_example_chain getCauses_example_chain_B)

text \<open>
  The normal return on a store outside \<open>reachable\<close>: once a caller has set the effect of
  the stored link from X to Z, an intervention on Y and Z returns with one more cause of Z
  than before, because the third loop adds the id at the link's present effect.
\<close>

lemma rewired_store_fields:
  "links rewired_store =
     [''causal:i'' \<mapsto> plain_link ''causal:i'' ''X'' ''Z'' (9/10) (1/2),
      ''causal:ii'' \<mapsto> plain_link ''causal:ii'' ''W'' ''Z'' (8/10) (1/4)]"
  "linksByEffect rewired_store = [''Y'' \<mapsto> [''causal:i''], ''Z'' \<mapsto> [''causal:ii'']]"
  by (simp_all add: rewired_store_def plain_link_def store_eval fun_upd_twist)

lemma predictIntervention_rewired_store:
  "getCauses rewired_store ''Z'' = [plain_link ''causal:ii'' ''W'' ''Z'' (8/10) (1/4)] \<and>
   getCauses (snd (predictIntervention [(''Y'', True), (''Z'', True)] ''Q'' rewired_store)) ''Z'' =
     [plain_link ''causal:i'' ''X'' ''Z'' (9/10) (1/2), plain_link ''causal:ii'' ''W'' ''Z'' (8/10) (1/4)]"
  by (simp add: predictIntervention_def Let_def getCauses_def ids_at_def rewired_store_fields
      unlink_effect_def relink_effect_def restore_links_def index_delete_def index_add_def
      set_delete_def set_add_def plain_link_def)

subsection \<open>Exceptional exit\<close>

text \<open>Without a throwing accessor the model with exits is the model without them.\<close>

lemma fold_Returns:
  "(\<And>x a. x \<in> set xs \<Longrightarrow> g x (Returns a) = Returns (f x a)) \<Longrightarrow>
     fold g xs (Returns a0) = Returns (fold f xs a0)"
  by (induction xs arbitrary: a0) simp_all

lemma explore_exc_no_throw:
  "(\<And>link. \<not> strength_throws link) \<Longrightarrow>
     explore_exc strength_throws s m cur path conf depth acc =
       Returns (explore s m cur path conf depth acc)"
proof (induction s m cur path conf depth acc rule: explore.induct)
  case (1 s maxSteps currentId path conf depth acc)
  show ?case
  proof (cases "int depth \<ge> maxSteps \<or> currentId \<in> fst acc")
    case True
    then show ?thesis by (simp add: explore.simps explore_exc.simps)
  next
    case False
    note step = 1(1)[OF False _ refl refl 1(2)]
    show ?thesis
      apply (subst explore_exc.simps)
      apply (subst explore.simps)
      using False apply (simp only: if_False Let_def)
      apply (rule fold_Returns)
      apply (simp only: completion.case 1(2) if_False step)
      done
  qed
qed

lemma predictEffect_exc_no_throw:
  "(\<And>link. \<not> strength_throws link) \<Longrightarrow>
     predictEffect_exc strength_throws s c m = Returns (predictEffect s c m)"
  by (simp add: predictEffect_exc_def predictEffect_def explore_exc_no_throw)

lemma search_interventions_exc_no_throw:
  "(\<And>link. \<not> strength_throws link) \<Longrightarrow>
     search_interventions_exc strength_throws s iv t = Returns (search_interventions s iv t)"
  by (induction iv) (simp_all add: predictEffect_exc_no_throw Let_def split: option.split)

lemma predictIntervention_exc_no_throw:
  "(\<And>link. \<not> strength_throws link) \<Longrightarrow>
     predictIntervention_exc strength_throws iv t s =
       (Returns (fst (predictIntervention iv t s)), snd (predictIntervention iv t s))"
  by (simp add: predictIntervention_exc_def predictIntervention_def Let_def
      search_interventions_exc_no_throw)

lemma trapped_store_fields:
  "links trapped_store =
     [''causal:i'' \<mapsto> plain_link ''causal:i'' ''A'' ''B'' (9/10) (1/2), ''x'' \<mapsto> callers_link]"
  "linksByCause trapped_store = [''A'' \<mapsto> [''causal:i''], ''B'' \<mapsto> [''x'']]"
  "linksByEffect trapped_store = [''B'' \<mapsto> [''causal:i''], ''C'' \<mapsto> [''x'']]"
  by (simp_all add: trapped_store_def callers_link_def plain_link_def addEdge_def getGraph_def
      createGraph_def now_def store_eval)

lemma getCauses_trapped_store_B:
  "getCauses trapped_store ''B'' = [plain_link ''causal:i'' ''A'' ''B'' (9/10) (1/2)]"
  by (simp add: getCauses_def ids_at_def trapped_store_fields)

lemma remove_incoming_trapped_store:
  "links (fst (remove_incoming [(''B'', forced)] (trapped_store, []))) = links trapped_store"
  "linksByCause (fst (remove_incoming [(''B'', forced)] (trapped_store, []))) =
     linksByCause trapped_store"
  "linksByEffect (fst (remove_incoming [(''B'', forced)] (trapped_store, []))) =
     [''B'' \<mapsto> [], ''C'' \<mapsto> [''x'']]"
  by (simp_all add: Let_def getCauses_trapped_store_B unlink_effect_def plain_link_def
      trapped_store_fields index_delete_def set_delete_def fun_upd_twist)

lemma getEffects_severed_trapped_store:
  "getEffects (fst (remove_incoming [(''B'', forced)] (trapped_store, []))) ''B'' = [callers_link]"
  by (simp add: getEffects_def ids_at_def remove_incoming_trapped_store trapped_store_fields
      del: remove_incoming.simps)

text \<open>
  C1 (restoration of the effect index on every exit path). The contents of the effect
  index are not restored on an exceptional exit. In \<open>trapped_store\<close> the link from A to B
  is the only cause of B. \<open>predictIntervention({B: true}, C)\<close> deletes it from the effect
  index, the search from B reads the strength of the caller's link from B to C, the
  accessor throws, and the call ends by that exception before the loop that restores:
  afterwards \<open>getCauses(B)\<close> is empty.
\<close>

theorem predictIntervention_throw_skips_restore:
  "getCauses trapped_store ''B'' = [plain_link ''causal:i'' ''A'' ''B'' (9/10) (1/2)] \<and>
   fst (predictIntervention_exc trapped [(''B'', True)] ''C'' trapped_store) = Throws \<and>
   getCauses (snd (predictIntervention_exc trapped [(''B'', True)] ''C'' trapped_store)) ''B'' = []"
proof -
  let ?s1 = "fst (remove_incoming [(''B'', True)] (trapped_store, []))"
  have "explore_exc trapped ?s1 3 ''B'' [] 1 0 ({}, []) = Throws"
    by (simp add: explore_exc.simps getEffects_severed_trapped_store trapped_def callers_link_def
        plain_link_def del: remove_incoming.simps)
  then have "search_interventions_exc trapped ?s1 [(''B'', True)] ''C'' = Throws"
    by (simp add: predictEffect_exc_def del: remove_incoming.simps)
  then have exit: "predictIntervention_exc trapped [(''B'', True)] ''C'' trapped_store = (Throws, ?s1)"
    by (simp add: predictIntervention_exc_def Let_def del: remove_incoming.simps)
  have "getCauses ?s1 ''B'' = []"
    by (simp add: getCauses_def ids_at_def remove_incoming_trapped_store del: remove_incoming.simps)
  then show ?thesis
    using exit getCauses_trapped_store_B by (simp del: remove_incoming.simps)
qed

subsection \<open>The forced values and the answer\<close>

lemma remove_incoming_keys:
  "map fst iv1 = map fst iv2 \<Longrightarrow> remove_incoming iv1 st = remove_incoming iv2 st"
proof (induction iv1 arbitrary: iv2 st)
  case Nil
  then show ?case by simp
next
  case (Cons e1 iv1)
  then obtain e2 rest where iv2: "iv2 = e2 # rest" by (cases iv2) auto
  with Cons.prems have k: "fst e1 = fst e2" and r: "map fst iv1 = map fst rest" by auto
  show ?case unfolding iv2 by (simp add: k Let_def Cons.IH[OF r])
qed

lemma search_interventions_keys:
  "map fst iv1 = map fst iv2 \<Longrightarrow> search_interventions s iv1 t = search_interventions s iv2 t"
proof (induction iv1 arbitrary: iv2)
  case Nil
  then show ?case by simp
next
  case (Cons e1 iv1)
  then obtain e2 rest where iv2: "iv2 = e2 # rest" by (cases iv2) auto
  with Cons.prems have k: "fst e1 = fst e2" and r: "map fst iv1 = map fst rest" by auto
  show ?case unfolding iv2 by (simp add: k Let_def Cons.IH[OF r] split: option.split)
qed

text \<open>
  C7 (forced values are ignored). Two intervention maps with the same keys in the same
  order give the same result and the same store, whatever values they force (the values
  may even be of different types).
\<close>

theorem predictIntervention_ignores_forced_values:
  "map fst iv1 = map fst iv2 \<Longrightarrow>
     predictIntervention iv1 targetEffect s = predictIntervention iv2 targetEffect s"
  by (simp add: predictIntervention_def remove_incoming_keys[of iv1 iv2]
      search_interventions_keys[of iv1 iv2])

lemma predictEffect_example_chain_D:
  "find (\<lambda>p. prediction p = ''D'') (predictEffect example_chain ''A'' 3) =
     Some \<lparr>prediction = ''D'', confidence = 504/1000,
       causalPath = [link_AB (9/10) (1/2), link_BC (8/10) (1/4), link_CD (7/10) (1/8)],
       explanation = ''A causes B, which causes C, which causes D''\<rparr>"
  unfolding example_chain_def predictEffect_chain by simp

theorem predictIntervention_ignores_forced_values_witness:
  "map fst [(''A'', True)] = map fst [(''A'', False)] \<and>
   predictIntervention [(''A'', True)] ''D'' example_chain =
     predictIntervention [(''A'', False)] ''D'' example_chain \<and>
   map_option confidence (fst (predictIntervention [(''A'', False)] ''D'' example_chain)) =
     Some (504/1000)"
proof -
  have keys: "map fst [(''A'', True)] = map fst [(''A'', False)]" by simp
  let ?s1 = "fst (remove_incoming [(''A'', False)] (example_chain, []))"
  have "links ?s1 = links example_chain" and "linksByCause ?s1 = linksByCause example_chain"
    using remove_incoming_frame[of "[(''A'', False)]" "(example_chain, [])"] by simp_all
  then have "predictEffect ?s1 ''A'' 3 = predictEffect example_chain ''A'' 3"
    by (rule predictEffect_cong)
  then have "fst (predictIntervention [(''A'', False)] ''D'' example_chain) =
      find (\<lambda>p. prediction p = ''D'') (predictEffect example_chain ''A'' 3)"
    by (simp add: predictIntervention_def Let_def split: option.split)
  then have "map_option confidence (fst (predictIntervention [(''A'', False)] ''D'' example_chain)) =
     Some (504/1000)"
    by (simp add: predictEffect_example_chain_D)
  then show ?thesis
    using keys predictIntervention_ignores_forced_values [OF keys, of "''D''" example_chain]
    by simp
qed

text \<open>
  C10 (the severing cannot change the answer). The result of \<open>predictIntervention\<close> is the
  first match of plain \<open>predictEffect(key)\<close> over the keys in iteration order on the
  store as it was before the call: the first loop edits \<open>linksByEffect\<close> only, and
  \<open>predictEffect\<close> reads \<open>links\<close> and \<open>linksByCause\<close> only.
\<close>

theorem predictIntervention_is_first_match_on_store:
  "fst (predictIntervention intervention targetEffect s) =
     first_match_on_store s (map fst intervention) targetEffect"
proof -
  let ?s1 = "fst (remove_incoming intervention (s, []))"
  have "links ?s1 = links s" and "linksByCause ?s1 = linksByCause s"
    using remove_incoming_frame[of intervention "(s, [])"] by simp_all
  then have "search_interventions ?s1 intervention targetEffect =
      search_interventions s intervention targetEffect"
    by (rule search_interventions_cong)
  then show ?thesis
    by (simp add: predictIntervention_def Let_def search_interventions_first_match)
qed

end
